theory Spec2Isabelle
  imports Main "HOL-Library.Word"
begin

section \<open>Strings and byte arrays\<close>

text \<open>
  A \<open>QByteArray\<close> is a list of bytes (\<open>char\<close> is a byte); a \<open>QString\<close> is a list of
  UTF-16 code units. The composer only asks a \<open>QString\<close> whether it is empty, so the
  null string and the empty string are one value here. A \<open>QByteArray\<close> that the code asks
  \<open>isNull()\<close> is an \<open>option\<close>, with \<open>None\<close> the null array.
\<close>

type_synonym QByteArray = string
type_synonym QString = "16 word list"
type_synonym QDateTime = int

definition CR :: char where
  "CR = CHR 0x0D"

definition LF :: char where
  "LF = CHR 0x0A"

definition CRLF :: QByteArray where
  "CRLF = [CR, LF]"

definition QLatin1String :: "string \<Rightarrow> QString" where
  "QLatin1String s = map (\<lambda>c. of_nat (of_char c)) s"

text \<open>
  The lines of a byte stream: the pieces between consecutive CRLF pairs, terminators
  excluded. The first argument is the line read so far.
\<close>

fun split_crlf :: "QByteArray \<Rightarrow> QByteArray \<Rightarrow> QByteArray list" where
  "split_crlf cur [] = [cur]"
| "split_crlf cur [c] = [cur @ [c]]"
| "split_crlf cur (a # b # r) =
     (if a = CR \<and> b = LF then cur # split_crlf [] r else split_crlf (cur @ [a]) (b # r))"

definition lines_of :: "QByteArray \<Rightarrow> QByteArray list" where
  "lines_of out = split_crlf [] out"

text \<open>Reading a device to its end in reads of at most \<open>n\<close> bytes gives these blocks.\<close>

function chunks :: "nat \<Rightarrow> 'a list \<Rightarrow> 'a list list" where
  "chunks n xs = (if n = 0 \<or> xs = [] then [] else take n xs # chunks n (drop n xs))"
  by pat_completeness auto
termination
  by (relation "measure (\<lambda>(n, xs). length xs)") auto

declare chunks.simps [simp del]

section \<open>Base64, as \<open>QByteArray::toBase64\<close> computes it\<close>

definition base64_alphabet :: string where
  "base64_alphabet = ''ABCDEFGHIJKLMNOPQRSTUVWXYZabcdefghijklmnopqrstuvwxyz0123456789+/''"

definition base64_char :: "nat \<Rightarrow> char" where
  "base64_char n = base64_alphabet ! (n mod 64)"

text \<open>
  Three input bytes make one 24-bit chunk and four output characters; a final group of
  one or two bytes is padded with \<open>=\<close>.
\<close>

fun toBase64 :: "QByteArray \<Rightarrow> QByteArray" where
  "toBase64 [] = []"
| "toBase64 [a] =
     (let chunk = of_char a * 65536 :: nat
      in [base64_char (chunk div 262144), base64_char (chunk div 4096), CHR ''='', CHR ''=''])"
| "toBase64 [a, b] =
     (let chunk = of_char a * 65536 + of_char b * 256 :: nat
      in [base64_char (chunk div 262144), base64_char (chunk div 4096),
          base64_char (chunk div 64), CHR ''=''])"
| "toBase64 (a # b # c # r) =
     (let chunk = of_char a * 65536 + of_char b * 256 + of_char c :: nat
      in [base64_char (chunk div 262144), base64_char (chunk div 4096),
          base64_char (chunk div 64), base64_char chunk] @ toBase64 r)"

section \<open>The attachment contract\<close>

datatype ContentTransferEncoding = Base64 | SevenBit | EightBit | Binary | QuotedPrintable

datatype ContentDisposition = CDN_ATTACHMENT | CDN_INLINE

text \<open>
  Class \<open>AttachmentItem\<close> is abstract and lives outside this file: an attachment is a
  value of an arbitrary type \<open>'a\<close>, and what its virtual methods answer is a parameter of
  every function that calls them. \<open>rawData\<close> is \<open>None\<close> when the device pointer is null;
  otherwise it is the content of a random-access device (a file or a buffer), whose
  \<open>read(n)\<close> returns the next \<open>min n remaining\<close> bytes.
\<close>

record 'a AttachmentContract =
  isAvailableLocally :: "'a \<Rightarrow> bool"
  imapUrl :: "'a \<Rightarrow> QByteArray"
  mimeType :: "'a \<Rightarrow> QByteArray"
  contentDispositionHeader :: "'a \<Rightarrow> QByteArray"
  suggestedCTE :: "'a \<Rightarrow> ContentTransferEncoding"
  rawData :: "'a \<Rightarrow> QByteArray option"
  caption :: "'a \<Rightarrow> QString"
  preload :: "'a \<Rightarrow> 'a"
  setContentDispositionMode :: "ContentDisposition \<Rightarrow> 'a \<Rightarrow> 'a"

text \<open>
  What a failed call reports: the two messages of the serialisers (each names the
  attachment by its caption), and an assertion that fails in a build with assertions.
\<close>

datatype error =
    AttachmentNotAvailable QString
  | AttachmentDisappeared QString
  | AssertionFailed

section \<open>Writing an attachment body\<close>

text \<open>
  The loop of \<open>writeAttachmentBody\<close>: while the device is not at its end, a Base64
  attachment reads \<open>76*6/8\<close> bytes, writes them encoded and a CRLF; every other encoding
  reads all that is left. The result is what the loop writes to \<open>target\<close>.
\<close>

function writeAttachmentBody_loop ::
  "(QByteArray \<Rightarrow> QByteArray) \<Rightarrow> ContentTransferEncoding \<Rightarrow> QByteArray \<Rightarrow> QByteArray" where
  "writeAttachmentBody_loop qp cte io =
     (if io = [] then []
      else if cte = Base64 then
        toBase64 (take (76 * 6 div 8) io) @ CRLF @
          writeAttachmentBody_loop qp cte (drop (76 * 6 div 8) io)
      else if cte = QuotedPrintable then qp io @ writeAttachmentBody_loop qp cte []
      else io @ writeAttachmentBody_loop qp cte [])"
  by pat_completeness auto
termination
  by (relation "measure (\<lambda>(qp, cte, io). length io)") auto

declare writeAttachmentBody_loop.simps [simp del]

definition writeAttachmentBody ::
  "(QByteArray \<Rightarrow> QByteArray) \<Rightarrow> 'a AttachmentContract \<Rightarrow> 'a \<Rightarrow> error + QByteArray" where
  "writeAttachmentBody qp A attachment =
     (if \<not> isAvailableLocally A attachment then
        Inl (AttachmentNotAvailable (caption A attachment))
      else case rawData A attachment of
        None \<Rightarrow> Inl (AttachmentDisappeared (caption A attachment))
      | Some io \<Rightarrow> Inr (writeAttachmentBody_loop qp (suggestedCTE A attachment) io))"

section \<open>Headers that list message-ids\<close>

text \<open>
  The loop of \<open>writeHeaderWithMsgIds\<close> over the ids from index \<open>i\<close> on, with \<open>charCount\<close>
  the characters already on the current line. The result is what the loop writes.
\<close>

fun writeHeaderWithMsgIds_loop :: "nat \<Rightarrow> nat \<Rightarrow> QByteArray list \<Rightarrow> QByteArray" where
  "writeHeaderWithMsgIds_loop i charCount [] = []"
| "writeHeaderWithMsgIds_loop i charCount (messageId # rest) =
     (if i \<noteq> 0 \<and> charCount \<noteq> 0 \<and> charCount + length messageId > 78 - 3 then
        CRLF @ '' <'' @ messageId @ ''>'' @
          writeHeaderWithMsgIds_loop (Suc i) (0 + (length messageId + 3)) rest
      else
        '' <'' @ messageId @ ''>'' @
          writeHeaderWithMsgIds_loop (Suc i) (charCount + (length messageId + 3)) rest)"

definition writeHeaderWithMsgIds :: "QByteArray \<Rightarrow> QByteArray list \<Rightarrow> QByteArray" where
  "writeHeaderWithMsgIds headerName messageIds =
     (if messageIds = [] then []
      else headerName @ '':'' @
        writeHeaderWithMsgIds_loop 0 (length headerName + 1) messageIds @ CRLF)"

text \<open>
  The ids of a header, each in angle brackets after a space, with a line break in front
  of those that are marked.
\<close>

definition folded :: "bool list \<Rightarrow> QByteArray list \<Rightarrow> QByteArray" where
  "folded breaks messageIds =
     concat (map (\<lambda>(break, messageId). (if break then CRLF else []) @ '' <'' @ messageId @ ''>'')
       (zip breaks messageIds))"

section \<open>The composer\<close>

record MailAddress =
  name :: QString
  adl :: QString
  mailbox :: QString
  host :: QString

datatype RecipientKind =
  ADDRESS_TO | ADDRESS_CC | ADDRESS_BCC | ADDRESS_FROM | ADDRESS_SENDER | ADDRESS_REPLY_TO

text \<open>
  Functions of other files and of Qt that the composer calls, as parameters: the address
  formatters of \<open>MailAddress\<close>, the encoders of \<open>Imap/Encoders\<close>, \<open>QString::toUtf8\<close>, the
  version strings, and whether the build keeps \<open>Q_ASSERT\<close>.
\<close>

record Library =
  asMailHeader :: "MailAddress \<Rightarrow> QByteArray"
  asSMTPMailbox :: "MailAddress \<Rightarrow> QByteArray"
  encodeRFC2047StringWithAsciiPrefix :: "QString \<Rightarrow> QByteArray"
  dateTimeToRfc2822 :: "QDateTime \<Rightarrow> QString"
  quotedPrintableEncode :: "QByteArray \<Rightarrow> QByteArray"
  wrapFormatFlowed :: "QString \<Rightarrow> QString"
  toUtf8 :: "QString \<Rightarrow> QByteArray"
  version :: QString
  systemPlatformVersion :: QString
  assertionsEnabled :: bool

text \<open>What the list model tells its views, in the order of the calls.\<close>

datatype Signal =
    BeginInsertRows int int
  | EndInsertRows
  | BeginRemoveRows int int
  | EndRemoveRows

record 'a MessageComposer =
  m_from :: MailAddress
  m_recipients :: "(RecipientKind \<times> MailAddress) list"
  m_inReplyTo :: "QByteArray list"
  m_references :: "QByteArray list"
  m_timestamp :: QDateTime
  m_subject :: QString
  m_organization :: QString
  m_text :: QString
  m_attachments :: "'a list"
  m_messageId :: "QByteArray option"
  m_mimeBoundary :: "QByteArray option"
  m_shouldPreload :: bool
  m_reportTrojitaVersions :: bool
  signals :: "Signal list"

text \<open>The bytes of a byte array that may be null: appending a null array appends nothing.\<close>

definition bytes :: "QByteArray option \<Rightarrow> QByteArray" where
  "bytes b = (case b of None \<Rightarrow> [] | Some bs \<Rightarrow> bs)"

subsection \<open>Message-id and MIME boundary\<close>

text \<open>
  \<open>QUuid::createUuid().toByteArray()\<close> is the next value of a generator: \<open>createUuid k\<close> is the
  \<open>k\<close>-th UUID the process draws, in braces, and the counter says how many were drawn.
\<close>

definition withoutBraces :: "QByteArray \<Rightarrow> QByteArray" where
  "withoutBraces u = filter (\<lambda>c. c \<noteq> CHR ''}'') (filter (\<lambda>c. c \<noteq> CHR ''{'') u)"

definition ensureRandomStrings ::
  "Library \<Rightarrow> (nat \<Rightarrow> QByteArray) \<Rightarrow> nat \<Rightarrow> 'a MessageComposer \<Rightarrow> 'a MessageComposer \<times> nat" where
  "ensureRandomStrings L createUuid k c =
     (let (c1, k1) =
        (if m_messageId c = None then
           (let domain = toUtf8 L (host (m_from c));
                domain = (if domain = [] then ''localhost'' else domain)
            in (c\<lparr>m_messageId := Some (withoutBraces (createUuid k) @ ''@'' @ domain)\<rparr>, Suc k))
         else (c, k))
      in if m_mimeBoundary c1 = None then
           (c1\<lparr>m_mimeBoundary := Some (''trojita=_'' @ withoutBraces (createUuid k1))\<rparr>, Suc k1)
         else (c1, k1))"

subsection \<open>The common beginning of a message\<close>

definition encodeHeaderField :: "Library \<Rightarrow> QString \<Rightarrow> QByteArray" where
  "encodeHeaderField L text = encodeRFC2047StringWithAsciiPrefix L text"

definition processListOfRecipientsIntoHeader ::
  "QByteArray \<Rightarrow> QByteArray list \<Rightarrow> QByteArray \<Rightarrow> QByteArray" where
  "processListOfRecipientsIntoHeader prefix addresses out =
     (if addresses \<noteq> [] then
        out @ prefix @ concat (map (\<lambda>a. a @ '','' @ CRLF @ '' '') (butlast addresses)) @
          last addresses @ CRLF
      else out)"

text \<open>
  The loop that sorts the recipients into the \<open>To\<close> and the \<open>Cc\<close> list. The three kinds
  that the composer never produces hit \<open>Q_ASSERT(false)\<close>: the process aborts in a build
  with assertions, and the recipient is skipped in one without.
\<close>

fun groupRecipients ::
  "Library \<Rightarrow> (RecipientKind \<times> MailAddress) list \<Rightarrow> QByteArray list \<Rightarrow> QByteArray list \<Rightarrow>
    error + (QByteArray list \<times> QByteArray list)" where
  "groupRecipients L [] rcptTo rcptCc = Inr (rcptTo, rcptCc)"
| "groupRecipients L ((ADDRESS_TO, address) # rest) rcptTo rcptCc =
     groupRecipients L rest (rcptTo @ [asMailHeader L address]) rcptCc"
| "groupRecipients L ((ADDRESS_CC, address) # rest) rcptTo rcptCc =
     groupRecipients L rest rcptTo (rcptCc @ [asMailHeader L address])"
| "groupRecipients L ((ADDRESS_BCC, address) # rest) rcptTo rcptCc =
     groupRecipients L rest rcptTo rcptCc"
| "groupRecipients L ((kind, address) # rest) rcptTo rcptCc =
     (if assertionsEnabled L then Inl AssertionFailed
      else groupRecipients L rest rcptTo rcptCc)"

definition writeCommonMessageBeginning :: "Library \<Rightarrow> 'a MessageComposer \<Rightarrow> error + QByteArray" where
  "writeCommonMessageBeginning L c =
     (case groupRecipients L (m_recipients c) [] [] of
        Inl e \<Rightarrow> Inl e
      | Inr (rcptTo, rcptCc) \<Rightarrow>
          Inr (''From: '' @ asMailHeader L (m_from c) @ CRLF @
            processListOfRecipientsIntoHeader ''Cc: '' rcptCc
              (processListOfRecipientsIntoHeader ''To: '' rcptTo []) @
            encodeHeaderField L (QLatin1String ''Subject: '' @ m_subject c) @ CRLF @
              ''Date: '' @ toUtf8 L (dateTimeToRfc2822 L (m_timestamp c)) @ CRLF @
              ''MIME-Version: 1.0'' @ CRLF @
            ''Message-ID: <'' @ bytes (m_messageId c) @ ''>'' @ CRLF @
            writeHeaderWithMsgIds ''In-Reply-To'' (m_inReplyTo c) @
            writeHeaderWithMsgIds ''References'' (m_references c) @
            (if m_organization c \<noteq> [] then
               encodeHeaderField L (QLatin1String ''Organization: '' @ m_organization c) @ CRLF
             else []) @
            (if m_reportTrojitaVersions c then
               toUtf8 L (QLatin1String ''User-Agent: Trojita/'' @ version L @ QLatin1String ''; '' @
                 systemPlatformVersion L @ QLatin1String CRLF)
             else ''User-Agent: Trojita'' @ CRLF) @
            (if m_attachments c \<noteq> [] then
               ''Content-Type: multipart/mixed;'' @ CRLF @ [CHR 0x09] @ ''boundary='' @ [CHR 0x22] @
                 bytes (m_mimeBoundary c) @ [CHR 0x22] @ CRLF @
               CRLF @ ''This is a multipart/mixed message in MIME format.'' @ CRLF @ CRLF @
               ''--'' @ bytes (m_mimeBoundary c) @ CRLF
             else []) @
            ''Content-Type: text/plain; charset=utf-8; format=flowed'' @ CRLF @
              ''Content-Transfer-Encoding: quoted-printable'' @ CRLF @
              CRLF @
            quotedPrintableEncode L (toUtf8 L (wrapFormatFlowed L (m_text c)))))"

subsection \<open>Attachment headers\<close>

definition writeAttachmentHeader ::
  "'a AttachmentContract \<Rightarrow> 'a MessageComposer \<Rightarrow> 'a \<Rightarrow> error + QByteArray" where
  "writeAttachmentHeader A c attachment =
     (if \<not> isAvailableLocally A attachment \<and> imapUrl A attachment = [] then
        Inl (AttachmentNotAvailable (caption A attachment))
      else
        Inr (CRLF @ ''--'' @ bytes (m_mimeBoundary c) @ CRLF @
            ''Content-Type: '' @ mimeType A attachment @ CRLF @
          contentDispositionHeader A attachment @
          (case suggestedCTE A attachment of
             Base64 \<Rightarrow> ''Content-Transfer-Encoding: base64'' @ CRLF
           | SevenBit \<Rightarrow> ''Content-Transfer-Encoding: 7bit'' @ CRLF
           | EightBit \<Rightarrow> ''Content-Transfer-Encoding: 8bit'' @ CRLF
           | Binary \<Rightarrow> ''Content-Transfer-Encoding: binary'' @ CRLF
           | QuotedPrintable \<Rightarrow> ''Content-Transfer-Encoding: quoted-printable'' @ CRLF) @
          CRLF))"

subsection \<open>The raw message\<close>

text \<open>
  The serialisers write to \<open>target\<close> in sequence; \<open>target\<close> here is what has been written.
  A failed call returns the message it reports and leaves the caller to drop the
  partly written target.
\<close>

fun asRawMessage_loop ::
  "Library \<Rightarrow> 'a AttachmentContract \<Rightarrow> 'a MessageComposer \<Rightarrow> QByteArray \<Rightarrow> 'a list \<Rightarrow>
    error + QByteArray" where
  "asRawMessage_loop L A c target [] = Inr target"
| "asRawMessage_loop L A c target (attachment # rest) =
     (case writeAttachmentHeader A c attachment of
        Inl e \<Rightarrow> Inl e
      | Inr header \<Rightarrow>
          (case writeAttachmentBody (quotedPrintableEncode L) A attachment of
             Inl e \<Rightarrow> Inl e
           | Inr body \<Rightarrow> asRawMessage_loop L A c (target @ header @ body) rest))"

definition asRawMessage ::
  "Library \<Rightarrow> 'a AttachmentContract \<Rightarrow> (nat \<Rightarrow> QByteArray) \<Rightarrow> nat \<Rightarrow> 'a MessageComposer \<Rightarrow>
    (error + QByteArray) \<times> 'a MessageComposer \<times> nat" where
  "asRawMessage L A createUuid k c0 =
     (let (c, k') = ensureRandomStrings L createUuid k c0
      in (case writeCommonMessageBeginning L c of
            Inl e \<Rightarrow> Inl e
          | Inr target \<Rightarrow>
              if m_attachments c \<noteq> [] then
                (case asRawMessage_loop L A c target (m_attachments c) of
                   Inl e \<Rightarrow> Inl e
                 | Inr target' \<Rightarrow>
                     Inr (target' @ CRLF @ ''--'' @ bytes (m_mimeBoundary c) @ ''--'' @ CRLF))
              else Inr target,
          c, k'))"

subsection \<open>The fragments for CATENATE\<close>

datatype CatenateKind = CATENATE_TEXT | CATENATE_URL

type_synonym CatenatePair = "CatenateKind \<times> QByteArray"

text \<open>
  A \<open>QBuffer\<close> opened for appending on \<open>target.back().second\<close>: a write extends the bytes
  of the last fragment. The serialiser puts a fragment into \<open>target\<close> before it opens
  the first buffer, so the list is never empty where this is used.
\<close>

definition write_back :: "CatenatePair list \<Rightarrow> QByteArray \<Rightarrow> CatenatePair list" where
  "write_back target bs = butlast target @ [(fst (last target), snd (last target) @ bs)]"

definition ensure_text_back :: "CatenatePair list \<Rightarrow> CatenatePair list" where
  "ensure_text_back target =
     (if fst (last target) \<noteq> CATENATE_TEXT then target @ [(CATENATE_TEXT, [])] else target)"

fun asCatenateData_loop ::
  "Library \<Rightarrow> 'a AttachmentContract \<Rightarrow> 'a MessageComposer \<Rightarrow> CatenatePair list \<Rightarrow> 'a list \<Rightarrow>
    error + CatenatePair list" where
  "asCatenateData_loop L A c target [] = Inr target"
| "asCatenateData_loop L A c target (attachment # rest) =
     (let target1 = ensure_text_back target
      in case writeAttachmentHeader A c attachment of
           Inl e \<Rightarrow> Inl e
         | Inr header \<Rightarrow>
             (let target2 = write_back target1 header;
                  url = imapUrl A attachment
              in if url = [] then
                   (case writeAttachmentBody (quotedPrintableEncode L) A attachment of
                      Inl e \<Rightarrow> Inl e
                    | Inr body \<Rightarrow> asCatenateData_loop L A c (write_back target2 body) rest)
                 else asCatenateData_loop L A c (target2 @ [(CATENATE_URL, url)]) rest))"

definition asCatenateData ::
  "Library \<Rightarrow> 'a AttachmentContract \<Rightarrow> (nat \<Rightarrow> QByteArray) \<Rightarrow> nat \<Rightarrow> 'a MessageComposer \<Rightarrow>
    (error + CatenatePair list) \<times> 'a MessageComposer \<times> nat" where
  "asCatenateData L A createUuid k c0 =
     (let (c, k') = ensureRandomStrings L createUuid k c0
      in (case writeCommonMessageBeginning L c of
            Inl e \<Rightarrow> Inl e
          | Inr beginning \<Rightarrow>
              (let target = write_back [(CATENATE_TEXT, [])] beginning
               in if m_attachments c \<noteq> [] then
                    (case asCatenateData_loop L A c target (m_attachments c) of
                       Inl e \<Rightarrow> Inl e
                     | Inr target' \<Rightarrow>
                         Inr (write_back (ensure_text_back target')
                                (CRLF @ ''--'' @ bytes (m_mimeBoundary c) @ ''--'' @ CRLF)))
                  else Inr target),
          c, k'))"

subsection \<open>Envelope addresses\<close>

definition rawRecipientAddresses :: "Library \<Rightarrow> 'a MessageComposer \<Rightarrow> QByteArray list" where
  "rawRecipientAddresses L c = map (\<lambda>r. asSMTPMailbox L (snd r)) (m_recipients c)"

subsection \<open>Putting the fragments together\<close>

text \<open>
  What a server makes of a fragment list: the text fragments as they are, and for each
  URL fragment in turn the next of the given bodies.
\<close>

fun catenate :: "CatenatePair list \<Rightarrow> QByteArray list \<Rightarrow> QByteArray" where
  "catenate [] bodies = []"
| "catenate ((CATENATE_TEXT, bs) # rest) bodies = bs @ catenate rest bodies"
| "catenate ((CATENATE_URL, url) # rest) [] = catenate rest []"
| "catenate ((CATENATE_URL, url) # rest) (body # bodies) = body @ catenate rest bodies"

text \<open>
  The body bytes that the raw serialiser writes inline for an attachment (nothing when
  it cannot read the attachment), and those of the attachments that have a URL.
\<close>

definition inlinedBody :: "Library \<Rightarrow> 'a AttachmentContract \<Rightarrow> 'a \<Rightarrow> QByteArray" where
  "inlinedBody L A attachment =
     (case writeAttachmentBody (quotedPrintableEncode L) A attachment of
        Inl e \<Rightarrow> [] | Inr body \<Rightarrow> body)"

definition remoteBodies :: "Library \<Rightarrow> 'a AttachmentContract \<Rightarrow> 'a list \<Rightarrow> QByteArray list" where
  "remoteBodies L A attachments =
     map (inlinedBody L A) (filter (\<lambda>a. imapUrl A a \<noteq> []) attachments)"

text \<open>The number of URL fragments in a list.\<close>

definition urls :: "CatenatePair list \<Rightarrow> nat" where
  "urls target = length (filter (\<lambda>p. fst p = CATENATE_URL) target)"

section \<open>Changing the attachment list\<close>

text \<open>
  The mailbox model and the constructors of the three attachment classes are outside
  this file, so they are parameters: whether \<open>findMailboxByName\<close> finds a mailbox, what
  each constructor builds (\<open>None\<close> when a constructor for a remote attachment throws
  \<open>Imap::UnknownMessageIndex\<close>), and the values of the \<open>AttachmentKind\<close> enumerators.
\<close>

record 'a Model =
  findMailboxByName :: "QString \<Rightarrow> bool"
  newFileAttachmentItem :: "QString \<Rightarrow> 'a"
  newImapMessageAttachmentItem :: "QString \<Rightarrow> 32 word \<Rightarrow> 32 word \<Rightarrow> 'a option"
  newImapPartAttachmentItem :: "QString \<Rightarrow> 32 word \<Rightarrow> 32 word \<Rightarrow> QByteArray \<Rightarrow> 'a option"
  ATTACHMENT_IMAP_MESSAGE :: "32 word"
  ATTACHMENT_IMAP_PART :: "32 word"
  ATTACHMENT_FILE :: "32 word"

definition emit :: "Signal \<Rightarrow> 'a MessageComposer \<Rightarrow> 'a MessageComposer" where
  "emit sig c = c\<lparr>signals := signals c @ [sig]\<rparr>"

definition beginInsertRows :: "int \<Rightarrow> int \<Rightarrow> 'a MessageComposer \<Rightarrow> 'a MessageComposer" where
  "beginInsertRows firstRow lastRow c = emit (BeginInsertRows firstRow lastRow) c"

definition endInsertRows :: "'a MessageComposer \<Rightarrow> 'a MessageComposer" where
  "endInsertRows c = emit EndInsertRows c"

definition beginRemoveRows :: "int \<Rightarrow> int \<Rightarrow> 'a MessageComposer \<Rightarrow> 'a MessageComposer" where
  "beginRemoveRows firstRow lastRow c = emit (BeginRemoveRows firstRow lastRow) c"

definition endRemoveRows :: "'a MessageComposer \<Rightarrow> 'a MessageComposer" where
  "endRemoveRows c = emit EndRemoveRows c"

definition size_attachments :: "'a MessageComposer \<Rightarrow> int" where
  "size_attachments c = int (length (m_attachments c))"

definition addFileAttachment ::
  "'a Model \<Rightarrow> 'a AttachmentContract \<Rightarrow> QString \<Rightarrow> 'a MessageComposer \<Rightarrow> bool \<times> 'a MessageComposer" where
  "addFileAttachment M A path c0 =
     (let c = beginInsertRows (size_attachments c0) (size_attachments c0) c0;
          attachment = newFileAttachmentItem M path
      in if \<not> isAvailableLocally A attachment then (False, c)
         else
           (let attachment = (if m_shouldPreload c then preload A attachment else attachment);
                c = c\<lparr>m_attachments := m_attachments c @ [attachment]\<rparr>
            in (True, endInsertRows c)))"

text \<open>
  A \<open>QModelIndex\<close>: \<open>isValid()\<close> holds when row and column are not negative and the index
  belongs to a model.
\<close>

record QModelIndex =
  row :: int
  column :: int
  hasModel :: bool

definition isValid :: "QModelIndex \<Rightarrow> bool" where
  "isValid index = (row index \<ge> 0 \<and> column index \<ge> 0 \<and> hasModel index)"

definition removeAttachment :: "QModelIndex \<Rightarrow> 'a MessageComposer \<Rightarrow> 'a MessageComposer" where
  "removeAttachment index c0 =
     (if \<not> isValid index \<or> column index \<noteq> 0 \<or> row index < 0 \<or>
         row index \<ge> size_attachments c0 then c0
      else
        (let c = beginRemoveRows (row index) (row index) c0;
             c = c\<lparr>m_attachments :=
                   take (nat (row index)) (m_attachments c) @
                   drop (Suc (nat (row index))) (m_attachments c)\<rparr>
         in endRemoveRows c))"

text \<open>
  The end of \<open>dropAttachmentList\<close> and \<open>dropImapMessage\<close>: the items built during decoding
  go into the list between the two notifications, each preloaded first when preloading
  is on. \<open>rows\<close> is the number of rows that the first notification announces.
\<close>

definition insertItems ::
  "'a AttachmentContract \<Rightarrow> int \<Rightarrow> 'a list \<Rightarrow> 'a MessageComposer \<Rightarrow> 'a MessageComposer" where
  "insertItems A rows items c0 =
     (let c = beginInsertRows (size_attachments c0) (size_attachments c0 + rows - 1) c0;
          c = c\<lparr>m_attachments := m_attachments c @
                map (\<lambda>attachment. if m_shouldPreload c then preload A attachment else attachment)
                  items\<rparr>
      in endInsertRows c)"

section \<open>The data stream of a drop\<close>

text \<open>
  A \<open>QDataStream\<close> that reads a byte array: the bytes not read yet, and the status. A read
  past the end takes what is left and sets \<open>ReadPastEnd\<close>; the first status other than
  \<open>Ok\<close> stays. Integers are big-endian. This is the stream of Qt 5.7 and later, where
  reading a list puts back an earlier error status when it is done. Memory is not
  modelled: making room for the declared length of a string or a list never fails.
\<close>

datatype Status = Ok | ReadPastEnd | ReadCorruptData

record QDataStream =
  device :: QByteArray
  status :: Status

definition QDataStream_on :: "QByteArray \<Rightarrow> QDataStream" where
  "QDataStream_on encodedData = \<lparr> device = encodedData, status = Ok \<rparr>"

definition atEnd :: "QDataStream \<Rightarrow> bool" where
  "atEnd s = (device s = [])"

definition setStatus :: "Status \<Rightarrow> QDataStream \<Rightarrow> QDataStream" where
  "setStatus st s = (if status s = Ok then s\<lparr>status := st\<rparr> else s)"

definition readBlock :: "nat \<Rightarrow> QDataStream \<Rightarrow> QByteArray \<times> QDataStream" where
  "readBlock len s =
     (let got = take len (device s);
          s' = s\<lparr>device := drop len (device s)\<rparr>
      in (got, if length got \<noteq> len then setStatus ReadPastEnd s' else s'))"

definition be32 :: "QByteArray \<Rightarrow> 32 word" where
  "be32 bs = of_nat (foldl (\<lambda>n c. n * 256 + of_char c) 0 bs)"

definition read_quint32 :: "QDataStream \<Rightarrow> 32 word \<times> QDataStream" where
  "read_quint32 s =
     (let (got, s') = readBlock 4 s
      in (if length got \<noteq> 4 then 0 else be32 got, s'))"

text \<open>A \<open>qint32\<close> has the bits of a \<open>quint32\<close>; \<open>sint\<close> reads its sign.\<close>

definition read_qint32 :: "QDataStream \<Rightarrow> 32 word \<times> QDataStream" where
  "read_qint32 s = read_quint32 s"

fun utf16be :: "QByteArray \<Rightarrow> QString" where
  "utf16be (a # b # r) = of_nat (of_char a * 256 + of_char b) # utf16be r"
| "utf16be r = []"

text \<open>
  A string is its length in bytes and its UTF-16 code units; the length \<open>0xffffffff\<close>
  stands for the null string, and an odd length is corrupt data.
\<close>

definition read_QString :: "QDataStream \<Rightarrow> QString \<times> QDataStream" where
  "read_QString s =
     (let (n, s1) = read_quint32 s
      in if n = 0xffffffff then ([], s1)
         else if n > 0 then
           (if odd (unat n) then ([], setStatus ReadCorruptData s1)
            else
              (let (got, s2) = readBlock (unat n) s1
               in if length got \<noteq> unat n then ([], setStatus ReadPastEnd s2)
                  else (utf16be got, s2)))
         else ([], s1))"

definition read_QByteArray :: "QDataStream \<Rightarrow> QByteArray \<times> QDataStream" where
  "read_QByteArray s =
     (let (n, s1) = read_quint32 s
      in if n = 0xffffffff then ([], s1)
         else
           (let (got, s2) = readBlock (unat n) s1
            in if length got \<noteq> unat n then ([], setStatus ReadPastEnd s2)
               else (got, s2)))"

text \<open>
  Reading a \<open>QList<uint>\<close>: the status is reset, the count and then the elements are
  read, the list is cleared and the loop left at the first element that fails, and an
  earlier error status is put back at the end.
\<close>

fun read_elements :: "nat \<Rightarrow> QDataStream \<Rightarrow> 32 word list \<Rightarrow> 32 word list \<times> QDataStream" where
  "read_elements 0 s l = (l, s)"
| "read_elements (Suc n) s l =
     (let (t, s') = read_quint32 s
      in if status s' \<noteq> Ok then ([], s') else read_elements n s' (l @ [t]))"

definition read_QList_uint :: "QDataStream \<Rightarrow> 32 word list \<times> QDataStream" where
  "read_QList_uint s =
     (let oldStatus = status s;
          (n, s1) = read_quint32 (s\<lparr>status := Ok\<rparr>);
          (l, s2) = read_elements (unat n) s1 []
      in (l, if oldStatus \<noteq> Ok then s2\<lparr>status := oldStatus\<rparr> else s2))"

section \<open>Decoding a drop\<close>

definition validateDropImapMessage ::
  "'a Model \<Rightarrow> QDataStream \<Rightarrow> QString \<Rightarrow> 32 word \<Rightarrow> 32 word list \<Rightarrow> bool" where
  "validateDropImapMessage M s mboxName uidValidity uids =
     (if status s \<noteq> Ok then False
      else if \<not> findMailboxByName M mboxName then False
      else if length uids < 1 then False
      else if uidValidity = 0 then False
      else True)"

text \<open>
  \<open>validateDropImapPart\<close> reads the four fields itself: the result is its verdict, the
  stream after the reads, and the fields.
\<close>

definition validateDropImapPart ::
  "'a Model \<Rightarrow> QDataStream \<Rightarrow> bool \<times> QDataStream \<times> QString \<times> 32 word \<times> 32 word \<times> QByteArray" where
  "validateDropImapPart M s =
     (let (mboxName, s1) = read_QString s;
          (uidValidity, s2) = read_quint32 s1;
          (uid, s3) = read_quint32 s2;
          (trojitaPath, s4) = read_QByteArray s3
      in (if status s4 \<noteq> Ok then False
          else if \<not> findMailboxByName M mboxName then False
          else if uidValidity = 0 \<or> uid = 0 \<or> trojitaPath = [] then False
          else True,
          s4, mboxName, uidValidity, uid, trojitaPath))"

text \<open>
  One round of the loop of \<open>dropAttachmentList\<close>: the item it appends and the stream
  after it, or \<open>None\<close> where the function returns false.
\<close>

definition dropAttachmentList_item :: "'a Model \<Rightarrow> QDataStream \<Rightarrow> ('a \<times> QDataStream) option" where
  "dropAttachmentList_item M s =
     (let (kind, s1) = read_qint32 s
      in if kind = ATTACHMENT_IMAP_MESSAGE M then
           (let (mboxName, s2) = read_QString s1;
                (uidValidity, s3) = read_quint32 s2;
                (uids, s4) = read_QList_uint s3
            in if \<not> validateDropImapMessage M s4 mboxName uidValidity uids then None
               else if length uids \<noteq> 1 then None
               else
                 (case newImapMessageAttachmentItem M mboxName uidValidity (hd uids) of
                    None \<Rightarrow> None
                  | Some item \<Rightarrow> Some (item, s4)))
         else if kind = ATTACHMENT_IMAP_PART M then
           (let (ok, s2, mboxName, uidValidity, uid, trojitaPath) = validateDropImapPart M s1
            in if \<not> ok then None
               else
                 (case newImapPartAttachmentItem M mboxName uidValidity uid trojitaPath of
                    None \<Rightarrow> None
                  | Some item \<Rightarrow> Some (item, s2)))
         else if kind = ATTACHMENT_FILE M then
           (let (fileName, s2) = read_QString s1
            in Some (newFileAttachmentItem M fileName, s2))
         else None)"

fun dropAttachmentList_loop ::
  "'a Model \<Rightarrow> nat \<Rightarrow> QDataStream \<Rightarrow> 'a list \<Rightarrow> ('a list \<times> QDataStream) option" where
  "dropAttachmentList_loop M 0 s items = Some (items, s)"
| "dropAttachmentList_loop M (Suc n) s items =
     (case dropAttachmentList_item M s of
        None \<Rightarrow> None
      | Some (item, s') \<Rightarrow> dropAttachmentList_loop M n s' (items @ [item]))"

definition dropAttachmentList ::
  "'a Model \<Rightarrow> 'a AttachmentContract \<Rightarrow> QDataStream \<Rightarrow> 'a MessageComposer \<Rightarrow>
    bool \<times> 'a MessageComposer" where
  "dropAttachmentList M A s c =
     (if atEnd s then (False, c)
      else
        (let (num, s1) = read_qint32 s
         in if status s1 \<noteq> Ok then (False, c)
            else if sint num < 0 then (False, c)
            else
              (case dropAttachmentList_loop M (nat (sint num)) s1 [] of
                 None \<Rightarrow> (False, c)
               | Some (items, s2) \<Rightarrow>
                   if \<not> atEnd s2 then (False, c)
                   else if status s2 \<noteq> Ok then (False, c)
                   else (True, insertItems A (int (length items)) items c))))"

text \<open>
  The loop of \<open>dropImapMessage\<close> that builds one inline attachment for each UID; \<open>None\<close>
  where a constructor throws and the function returns false.
\<close>

fun dropImapMessage_items ::
  "'a Model \<Rightarrow> 'a AttachmentContract \<Rightarrow> QString \<Rightarrow> 32 word \<Rightarrow> 32 word list \<Rightarrow> 'a list \<Rightarrow>
    'a list option" where
  "dropImapMessage_items M A mboxName uidValidity [] items = Some items"
| "dropImapMessage_items M A mboxName uidValidity (uid # rest) items =
     (case newImapMessageAttachmentItem M mboxName uidValidity uid of
        None \<Rightarrow> None
      | Some item \<Rightarrow>
          dropImapMessage_items M A mboxName uidValidity rest
            (items @ [setContentDispositionMode A CDN_INLINE item]))"

definition dropImapMessage ::
  "'a Model \<Rightarrow> 'a AttachmentContract \<Rightarrow> QDataStream \<Rightarrow> 'a MessageComposer \<Rightarrow>
    bool \<times> 'a MessageComposer" where
  "dropImapMessage M A s c =
     (if atEnd s then (False, c)
      else
        (let (mboxName, s1) = read_QString s;
             (uidValidity, s2) = read_quint32 s1;
             (uids, s3) = read_QList_uint s2
         in if \<not> validateDropImapMessage M s3 mboxName uidValidity uids then (False, c)
            else if \<not> atEnd s3 then (False, c)
            else if status s3 \<noteq> Ok then (False, c)
            else
              (case dropImapMessage_items M A mboxName uidValidity uids [] of
                 None \<Rightarrow> (False, c)
               | Some items \<Rightarrow> (True, insertItems A (int (length uids)) items c))))"

definition dropImapPart ::
  "'a Model \<Rightarrow> 'a AttachmentContract \<Rightarrow> QDataStream \<Rightarrow> 'a MessageComposer \<Rightarrow>
    bool \<times> 'a MessageComposer" where
  "dropImapPart M A s c0 =
     (if atEnd s then (False, c0)
      else
        (let (ok, s1, mboxName, uidValidity, uid, trojitaPath) = validateDropImapPart M s
         in if \<not> ok then (False, c0)
            else if \<not> atEnd s1 then (False, c0)
            else if status s1 \<noteq> Ok then (False, c0)
            else
              (case newImapPartAttachmentItem M mboxName uidValidity uid trojitaPath of
                 None \<Rightarrow> (False, c0)
               | Some item \<Rightarrow>
                   (let c = beginInsertRows (size_attachments c0) (size_attachments c0) c0;
                        c = c\<lparr>m_attachments := m_attachments c @ [item]\<rparr>;
                        c = (if m_shouldPreload c then
                               c\<lparr>m_attachments := butlast (m_attachments c) @
                                   [preload A (last (m_attachments c))]\<rparr>
                             else c)
                    in (True, endInsertRows c)))))"

section \<open>The payload of an attachment list, as the specification describes it\<close>

text \<open>
  The specification's wire format: a count, then that many tagged records, each a file
  (path), a remote message (mailbox, UIDVALIDITY, UIDs) or a remote part (mailbox,
  UIDVALIDITY, UID, part path), and nothing after them. These parsers read a byte array
  strictly: a field that is cut short or corrupt gives \<open>None\<close>. They are not taken from
  the code; the theorems below compare the code with them.
\<close>

datatype Descriptor =
    File QString
  | ImapMessage QString "32 word" "32 word list"
  | ImapPart QString "32 word" "32 word" QByteArray

definition parse_quint32 :: "QByteArray \<Rightarrow> (32 word \<times> QByteArray) option" where
  "parse_quint32 bs = (if length bs < 4 then None else Some (be32 (take 4 bs), drop 4 bs))"

definition parse_QString :: "QByteArray \<Rightarrow> (QString \<times> QByteArray) option" where
  "parse_QString bs =
     (case parse_quint32 bs of
        None \<Rightarrow> None
      | Some (n, r) \<Rightarrow>
          if n = 0xffffffff then Some ([], r)
          else if odd (unat n) then None
          else if length r < unat n then None
          else Some (utf16be (take (unat n) r), drop (unat n) r))"

definition parse_QByteArray :: "QByteArray \<Rightarrow> (QByteArray \<times> QByteArray) option" where
  "parse_QByteArray bs =
     (case parse_quint32 bs of
        None \<Rightarrow> None
      | Some (n, r) \<Rightarrow>
          if n = 0xffffffff then Some ([], r)
          else if length r < unat n then None
          else Some (take (unat n) r, drop (unat n) r))"

fun parse_uints :: "nat \<Rightarrow> QByteArray \<Rightarrow> (32 word list \<times> QByteArray) option" where
  "parse_uints 0 bs = Some ([], bs)"
| "parse_uints (Suc n) bs =
     (case parse_quint32 bs of
        None \<Rightarrow> None
      | Some (t, r) \<Rightarrow>
          (case parse_uints n r of
             None \<Rightarrow> None
           | Some (ts, r') \<Rightarrow> Some (t # ts, r')))"

definition parse_QList_uint :: "QByteArray \<Rightarrow> (32 word list \<times> QByteArray) option" where
  "parse_QList_uint bs =
     (case parse_quint32 bs of
        None \<Rightarrow> None
      | Some (n, r) \<Rightarrow> parse_uints (unat n) r)"

definition parse_ImapMessage :: "QByteArray \<Rightarrow> (Descriptor \<times> QByteArray) option" where
  "parse_ImapMessage bs =
     (case parse_QString bs of
        None \<Rightarrow> None
      | Some (mboxName, r1) \<Rightarrow>
          (case parse_quint32 r1 of
             None \<Rightarrow> None
           | Some (uidValidity, r2) \<Rightarrow>
               (case parse_QList_uint r2 of
                  None \<Rightarrow> None
                | Some (uids, r3) \<Rightarrow> Some (ImapMessage mboxName uidValidity uids, r3))))"

definition parse_ImapPart :: "QByteArray \<Rightarrow> (Descriptor \<times> QByteArray) option" where
  "parse_ImapPart bs =
     (case parse_QString bs of
        None \<Rightarrow> None
      | Some (mboxName, r1) \<Rightarrow>
          (case parse_quint32 r1 of
             None \<Rightarrow> None
           | Some (uidValidity, r2) \<Rightarrow>
               (case parse_quint32 r2 of
                  None \<Rightarrow> None
                | Some (uid, r3) \<Rightarrow>
                    (case parse_QByteArray r3 of
                       None \<Rightarrow> None
                     | Some (trojitaPath, r4) \<Rightarrow>
                         Some (ImapPart mboxName uidValidity uid trojitaPath, r4)))))"

definition parse_File :: "QByteArray \<Rightarrow> (Descriptor \<times> QByteArray) option" where
  "parse_File bs =
     (case parse_QString bs of
        None \<Rightarrow> None
      | Some (fileName, r) \<Rightarrow> Some (File fileName, r))"

definition parse_record :: "'a Model \<Rightarrow> QByteArray \<Rightarrow> (Descriptor \<times> QByteArray) option" where
  "parse_record M bs =
     (case parse_quint32 bs of
        None \<Rightarrow> None
      | Some (kind, r) \<Rightarrow>
          if kind = ATTACHMENT_IMAP_MESSAGE M then parse_ImapMessage r
          else if kind = ATTACHMENT_IMAP_PART M then parse_ImapPart r
          else if kind = ATTACHMENT_FILE M then parse_File r
          else None)"

fun parse_records :: "'a Model \<Rightarrow> nat \<Rightarrow> QByteArray \<Rightarrow> (Descriptor list \<times> QByteArray) option" where
  "parse_records M 0 bs = Some ([], bs)"
| "parse_records M (Suc n) bs =
     (case parse_record M bs of
        None \<Rightarrow> None
      | Some (d, r) \<Rightarrow>
          (case parse_records M n r of
             None \<Rightarrow> None
           | Some (ds, r') \<Rightarrow> Some (d # ds, r')))"

text \<open>
  A well-formed payload: a count that is not negative, exactly that many records, and
  no byte left over.
\<close>

definition parse_attachment_list :: "'a Model \<Rightarrow> QByteArray \<Rightarrow> Descriptor list option" where
  "parse_attachment_list M payload =
     (case parse_quint32 payload of
        None \<Rightarrow> None
      | Some (num, r) \<Rightarrow>
          if sint num < 0 then None
          else
            (case parse_records M (nat (sint num)) r of
               None \<Rightarrow> None
             | Some (ds, rest) \<Rightarrow> if rest = [] then Some ds else None))"

text \<open>
  The validation of a record: the mailbox of a remote reference exists and its
  UIDVALIDITY is not zero; a message record of a list carries exactly one UID; a part
  record has a UID other than zero and a part path.
\<close>

fun valid_record :: "'a Model \<Rightarrow> Descriptor \<Rightarrow> bool" where
  "valid_record M (File fileName) = True"
| "valid_record M (ImapMessage mboxName uidValidity uids) =
     (findMailboxByName M mboxName \<and> uidValidity \<noteq> 0 \<and> length uids = 1)"
| "valid_record M (ImapPart mboxName uidValidity uid trojitaPath) =
     (findMailboxByName M mboxName \<and> uidValidity \<noteq> 0 \<and> uid \<noteq> 0 \<and> trojitaPath \<noteq> [])"

text \<open>
  The attachment that a record stands for: \<open>None\<close> when its constructor throws, and for a
  message record that has no UID to build from.
\<close>

fun construct :: "'a Model \<Rightarrow> Descriptor \<Rightarrow> 'a option" where
  "construct M (File fileName) = Some (newFileAttachmentItem M fileName)"
| "construct M (ImapMessage mboxName uidValidity uids) =
     (case uids of
        [] \<Rightarrow> None
      | uid # others \<Rightarrow> newImapMessageAttachmentItem M mboxName uidValidity uid)"
| "construct M (ImapPart mboxName uidValidity uid trojitaPath) =
     newImapPartAttachmentItem M mboxName uidValidity uid trojitaPath"

definition well_formed_attachment_list :: "'a Model \<Rightarrow> QByteArray \<Rightarrow> bool" where
  "well_formed_attachment_list M payload =
     (case parse_attachment_list M payload of
        None \<Rightarrow> False
      | Some ds \<Rightarrow> list_all (valid_record M) ds)"

text \<open>A trace of notifications in which every \<open>begin\<close> is answered by its \<open>end\<close>.\<close>

fun bracketed :: "Signal list \<Rightarrow> bool" where
  "bracketed [] = True"
| "bracketed (BeginInsertRows firstRow lastRow # EndInsertRows # rest) = bracketed rest"
| "bracketed (BeginRemoveRows firstRow lastRow # EndRemoveRows # rest) = bracketed rest"
| "bracketed (sig # rest) = False"

text \<open>
  The attachments that a list of records stands for, in order; \<open>None\<close> when a record is
  not valid or its constructor throws.
\<close>

fun construct_all :: "'a Model \<Rightarrow> Descriptor list \<Rightarrow> 'a list option" where
  "construct_all M [] = Some []"
| "construct_all M (d # ds) =
     (if \<not> valid_record M d then None
      else
        (case construct M d of
           None \<Rightarrow> None
         | Some item \<Rightarrow>
             (case construct_all M ds of
                None \<Rightarrow> None
              | Some items \<Rightarrow> Some (item # items))))"

text \<open>
  The payload of a message list (mailbox, UIDVALIDITY, UIDs) and of a part reference
  (mailbox, UIDVALIDITY, UID, part path), each with no byte left over.
\<close>

definition parse_message_list :: "QByteArray \<Rightarrow> Descriptor option" where
  "parse_message_list payload =
     (case parse_ImapMessage payload of
        None \<Rightarrow> None
      | Some (d, rest) \<Rightarrow> if rest = [] then Some d else None)"

definition parse_part_reference :: "QByteArray \<Rightarrow> Descriptor option" where
  "parse_part_reference payload =
     (case parse_ImapPart payload of
        None \<Rightarrow> None
      | Some (d, rest) \<Rightarrow> if rest = [] then Some d else None)"

section \<open>Concrete instances\<close>

text \<open>
  Three attachments to run the definitions on: a local file of 60 bytes that goes out
  in Base64, a remote message part that the server can splice in by URL and that is
  also held locally, and a remote part that is neither held locally nor has a URL.
\<close>

datatype ExampleAttachment = LocalFile | RemotePart | Unavailable

definition exampleContract :: "ExampleAttachment AttachmentContract" where
  "exampleContract =
     \<lparr> isAvailableLocally = (\<lambda>a. a \<noteq> Unavailable),
       imapUrl = (\<lambda>a. if a = RemotePart then ''/INBOX;UIDVALIDITY=1/;UID=7/;SECTION=2'' else []),
       mimeType = (\<lambda>a. if a = LocalFile then ''application/octet-stream'' else ''text/plain''),
       contentDispositionHeader = (\<lambda>a. ''Content-Disposition: attachment;'' @ CRLF),
       suggestedCTE = (\<lambda>a. if a = LocalFile then Base64 else SevenBit),
       rawData = (\<lambda>a. if a = LocalFile then
                           Some ''aaaaaaaaaaaaaaaaaaaaaaaaaaaaaaaaaaaaaaaaaaaaaaaaaaaaaaaaaaaa''
                       else if a = RemotePart then Some ''part'' else None),
       caption = (\<lambda>a. QLatin1String ''file''),
       preload = (\<lambda>a. a),
       setContentDispositionMode = (\<lambda>m a. a) \<rparr>"

text \<open>
  A library for text in Latin-1: strings convert byte for byte, the encoders change
  nothing, an address is written \<open>mailbox@host\<close>.
\<close>

definition latin1 :: "QString \<Rightarrow> QByteArray" where
  "latin1 s = map (\<lambda>u. char_of (unat u)) s"

definition exampleLibrary :: Library where
  "exampleLibrary =
     \<lparr> asMailHeader = (\<lambda>a. latin1 (mailbox a) @ ''@'' @ latin1 (host a)),
       asSMTPMailbox = (\<lambda>a. latin1 (mailbox a) @ ''@'' @ latin1 (host a)),
       encodeRFC2047StringWithAsciiPrefix = latin1,
       dateTimeToRfc2822 = (\<lambda>t. QLatin1String ''Tue, 03 Nov 2026 10:00:00 +0000''),
       quotedPrintableEncode = (\<lambda>b. b),
       wrapFormatFlowed = (\<lambda>t. t),
       toUtf8 = latin1,
       version = QLatin1String ''0.7'',
       systemPlatformVersion = QLatin1String ''Linux'',
       assertionsEnabled = True \<rparr>"

definition exampleAddress :: "string \<Rightarrow> string \<Rightarrow> MailAddress" where
  "exampleAddress m h =
     \<lparr> name = [], adl = [], mailbox = QLatin1String m, host = QLatin1String h \<rparr>"

text \<open>
  A new message from \<open>a@x.com\<close> to \<open>b@y.com\<close> with the local file and the remote part
  attached.
\<close>

definition exampleComposer :: "ExampleAttachment MessageComposer" where
  "exampleComposer =
     \<lparr> m_from = exampleAddress ''a'' ''x.com'',
       m_recipients = [(ADDRESS_TO, exampleAddress ''b'' ''y.com'')],
       m_inReplyTo = [],
       m_references = [],
       m_timestamp = 0,
       m_subject = QLatin1String ''Hi'',
       m_organization = [],
       m_text = QLatin1String ''hello'',
       m_attachments = [LocalFile, RemotePart],
       m_messageId = None,
       m_mimeBoundary = None,
       m_shouldPreload = False,
       m_reportTrojitaVersions = False,
       signals = [] \<rparr>"

definition exampleUuid :: "nat \<Rightarrow> QByteArray" where
  "exampleUuid k =
     (if k = 0 then ''{1b4e28ba-2fa1-41d2-883f-0016d3cca427}''
      else ''{6fa459ea-ee8a-4ca4-894e-db77e160355e}'')"

text \<open>The example composer once its tokens are set, and the message it is rendered to.\<close>

definition exampleRendered :: "ExampleAttachment MessageComposer" where
  "exampleRendered =
     exampleComposer\<lparr>m_messageId := Some ''1b4e28ba-2fa1-41d2-883f-0016d3cca427@x.com'',
       m_mimeBoundary := Some ''trojita=_6fa459ea-ee8a-4ca4-894e-db77e160355e''\<rparr>"

definition exampleBeginning :: QByteArray where
  "exampleBeginning =
     ''From: a@x.com'' @ CRLF @
     ''To: b@y.com'' @ CRLF @
     ''Subject: Hi'' @ CRLF @
     ''Date: Tue, 03 Nov 2026 10:00:00 +0000'' @ CRLF @
     ''MIME-Version: 1.0'' @ CRLF @
     ''Message-ID: <1b4e28ba-2fa1-41d2-883f-0016d3cca427@x.com>'' @ CRLF @
     ''User-Agent: Trojita'' @ CRLF @
     ''Content-Type: multipart/mixed;'' @ CRLF @
     [CHR 0x09] @ ''boundary='' @ [CHR 0x22] @
       ''trojita=_6fa459ea-ee8a-4ca4-894e-db77e160355e'' @ [CHR 0x22] @ CRLF @
     CRLF @
     ''This is a multipart/mixed message in MIME format.'' @ CRLF @
     CRLF @
     ''--trojita=_6fa459ea-ee8a-4ca4-894e-db77e160355e'' @ CRLF @
     ''Content-Type: text/plain; charset=utf-8; format=flowed'' @ CRLF @
     ''Content-Transfer-Encoding: quoted-printable'' @ CRLF @
     CRLF @
     ''hello''"

definition exampleFilePart :: QByteArray where
  "exampleFilePart =
     CRLF @ ''--trojita=_6fa459ea-ee8a-4ca4-894e-db77e160355e'' @ CRLF @
     ''Content-Type: application/octet-stream'' @ CRLF @
     ''Content-Disposition: attachment;'' @ CRLF @
     ''Content-Transfer-Encoding: base64'' @ CRLF @
     CRLF @
     ''YWFhYWFhYWFhYWFhYWFhYWFhYWFhYWFhYWFhYWFhYWFhYWFhYWFhYWFhYWFhYWFhYWFhYWFhYWFh'' @ CRLF @
     ''YWFh'' @ CRLF"

definition exampleRemotePartHeader :: QByteArray where
  "exampleRemotePartHeader =
     CRLF @ ''--trojita=_6fa459ea-ee8a-4ca4-894e-db77e160355e'' @ CRLF @
     ''Content-Type: text/plain'' @ CRLF @
     ''Content-Disposition: attachment;'' @ CRLF @
     ''Content-Transfer-Encoding: 7bit'' @ CRLF @
     CRLF"

definition exampleClosing :: QByteArray where
  "exampleClosing = CRLF @ ''--trojita=_6fa459ea-ee8a-4ca4-894e-db77e160355e--'' @ CRLF"

definition exampleRaw :: QByteArray where
  "exampleRaw =
     exampleBeginning @ exampleFilePart @ exampleRemotePartHeader @ ''part'' @ exampleClosing"

definition exampleFragments :: "CatenatePair list" where
  "exampleFragments =
     [(CATENATE_TEXT, exampleBeginning @ exampleFilePart @ exampleRemotePartHeader),
      (CATENATE_URL, ''/INBOX;UIDVALIDITY=1/;UID=7/;SECTION=2''),
      (CATENATE_TEXT, exampleClosing)]"

text \<open>
  A model with the one mailbox \<open>INBOX\<close>, in which only the message with UID 7 exists, a
  file system in which only \<open>/tmp/a\<close> is readable, and the enumerators numbered from 0.
\<close>

definition exampleModel :: "ExampleAttachment Model" where
  "exampleModel =
     \<lparr> findMailboxByName = (\<lambda>n. n = QLatin1String ''INBOX''),
       newFileAttachmentItem = (\<lambda>path. if path = QLatin1String ''/tmp/a'' then LocalFile else Unavailable),
       newImapMessageAttachmentItem = (\<lambda>n uidValidity uid. if uid = 7 then Some RemotePart else None),
       newImapPartAttachmentItem =
         (\<lambda>n uidValidity uid trojitaPath. if uid = 7 then Some RemotePart else None),
       ATTACHMENT_IMAP_MESSAGE = 0,
       ATTACHMENT_IMAP_PART = 1,
       ATTACHMENT_FILE = 2 \<rparr>"

text \<open>Pieces of payloads: numbers and strings as the stream holds them.\<close>

definition bytes_INBOX :: QByteArray where
  "bytes_INBOX =
     [CHR 0x00, CHR 0x00, CHR 0x00, CHR 0x0A,
      CHR 0x00, CHR ''I'', CHR 0x00, CHR ''N'', CHR 0x00, CHR ''B'', CHR 0x00, CHR ''O'',
      CHR 0x00, CHR ''X'']"

definition bytes_tmp_a :: QByteArray where
  "bytes_tmp_a =
     [CHR 0x00, CHR 0x00, CHR 0x00, CHR 0x0C,
      CHR 0x00, CHR ''/'', CHR 0x00, CHR ''t'', CHR 0x00, CHR ''m'', CHR 0x00, CHR ''p'',
      CHR 0x00, CHR ''/'', CHR 0x00, CHR ''a'']"

definition bytes_of_number :: "char \<Rightarrow> QByteArray" where
  "bytes_of_number low = [CHR 0x00, CHR 0x00, CHR 0x00, low]"

text \<open>A file record, and a message record for \<open>INBOX\<close>, UIDVALIDITY 1 and the given UID.\<close>

definition record_file :: QByteArray where
  "record_file = bytes_of_number (CHR 0x02) @ bytes_tmp_a"

definition record_message :: "char \<Rightarrow> QByteArray" where
  "record_message uid =
     bytes_of_number (CHR 0x00) @ bytes_INBOX @ bytes_of_number (CHR 0x01) @
       bytes_of_number (CHR 0x01) @ bytes_of_number uid"

text \<open>
  Attachment lists: one that declares three records and holds two, one with the count
  \<open>-1\<close>, one with a record of kind 9, one whose message record names a mailbox that is
  not there, one with a byte after its record, one whose first string is cut short, one
  whose message (UID 9) is gone from the mailbox, and a good one.
\<close>

definition payload_two_of_three :: QByteArray where
  "payload_two_of_three = bytes_of_number (CHR 0x03) @ record_file @ record_message (CHR 0x07)"

definition payload_negative_count :: QByteArray where
  "payload_negative_count = [CHR 0xFF, CHR 0xFF, CHR 0xFF, CHR 0xFF]"

definition payload_unknown_kind :: QByteArray where
  "payload_unknown_kind = bytes_of_number (CHR 0x01) @ bytes_of_number (CHR 0x09) @ bytes_tmp_a"

definition payload_no_mailbox :: QByteArray where
  "payload_no_mailbox =
     bytes_of_number (CHR 0x01) @ bytes_of_number (CHR 0x00) @ bytes_tmp_a @
       bytes_of_number (CHR 0x01) @ bytes_of_number (CHR 0x01) @ bytes_of_number (CHR 0x07)"

definition payload_leftover :: QByteArray where
  "payload_leftover = bytes_of_number (CHR 0x01) @ record_file @ [CHR 0x00]"

definition payload_cut_short :: QByteArray where
  "payload_cut_short =
     bytes_of_number (CHR 0x01) @ bytes_of_number (CHR 0x02) @
       [CHR 0x00, CHR 0x00, CHR 0x00, CHR 0x0C, CHR 0x00, CHR ''/'']"

definition payload_message_gone :: QByteArray where
  "payload_message_gone = bytes_of_number (CHR 0x02) @ record_file @ record_message (CHR 0x09)"

definition payload_good :: QByteArray where
  "payload_good = bytes_of_number (CHR 0x02) @ record_file @ record_message (CHR 0x07)"

text \<open>A message list for \<open>INBOX\<close> with the UIDs 7 and 9, and a part reference to UID 9.\<close>

definition payload_messages_7_9 :: QByteArray where
  "payload_messages_7_9 =
     bytes_INBOX @ bytes_of_number (CHR 0x01) @ bytes_of_number (CHR 0x02) @
       bytes_of_number (CHR 0x07) @ bytes_of_number (CHR 0x09)"

definition payload_part_of_9 :: QByteArray where
  "payload_part_of_9 =
     bytes_INBOX @ bytes_of_number (CHR 0x01) @ bytes_of_number (CHR 0x09) @
       [CHR 0x00, CHR 0x00, CHR 0x00, CHR 0x02, CHR ''/'', CHR ''1'']"

section \<open>Lines\<close>

lemma split_crlf_no_CR: "CR \<notin> set xs \<Longrightarrow> split_crlf cur xs = [cur @ xs]"
proof (induction cur xs rule: split_crlf.induct)
  case (1 cur)
  then show ?case by simp
next
  case (2 cur c)
  then show ?case by simp
next
  case (3 cur a b r)
  then show ?case by auto
qed

lemma split_crlf_line:
  "CR \<notin> set xs \<Longrightarrow> split_crlf cur (xs @ CRLF @ r) = (cur @ xs) # split_crlf [] r"
proof (induction xs arbitrary: cur)
  case Nil
  then show ?case by (simp add: CRLF_def)
next
  case (Cons x xs)
  have "x \<noteq> CR" using Cons.prems by auto
  obtain b r' where shape: "xs @ CRLF @ r = b # r'"
    by (cases xs) (auto simp: CRLF_def)
  have "split_crlf cur ((x # xs) @ CRLF @ r) = split_crlf (cur @ [x]) (xs @ CRLF @ r)"
    using \<open>x \<noteq> CR\<close> shape by simp
  also have "\<dots> = ((cur @ [x]) @ xs) # split_crlf [] r"
    using Cons.IH [of "cur @ [x]"] Cons.prems by simp
  finally show ?case by simp
qed

section \<open>Base64 lines\<close>

lemma length_toBase64: "length (toBase64 xs) = 4 * ((length xs + 2) div 3)"
proof (induction xs rule: toBase64.induct)
  case (4 a b c r)
  have "(length (a # b # c # r) + 2) div 3 = Suc ((length r + 2) div 3)"
    by simp
  with 4 show ?case by (simp add: Let_def)
qed (simp_all add: Let_def)

lemma CR_not_base64_char: "base64_char n \<noteq> CR"
proof -
  have "n mod 64 < length base64_alphabet"
    by (simp add: base64_alphabet_def)
  then have "base64_char n \<in> set base64_alphabet"
    unfolding base64_char_def by (rule nth_mem)
  moreover have "CR \<notin> set base64_alphabet"
    by (simp add: base64_alphabet_def CR_def)
  ultimately show ?thesis by metis
qed

lemma CR_not_eq_sign: "CR \<noteq> CHR ''=''"
  by (simp add: CR_def)

lemma CR_not_in_toBase64: "CR \<notin> set (toBase64 xs)"
  by (induction xs rule: toBase64.induct)
    (simp_all add: Let_def CR_not_base64_char [symmetric] CR_not_eq_sign)

section \<open>Attachment bodies in Base64\<close>

lemma chunks_Nil: "chunks n [] = []"
  by (simp add: chunks.simps)

lemma chunks_step: "0 < n \<Longrightarrow> xs \<noteq> [] \<Longrightarrow> chunks n xs = take n xs # chunks n (drop n xs)"
  by (subst chunks.simps) simp

lemma concat_chunks: "0 < n \<Longrightarrow> concat (chunks n xs) = xs"
proof (induction n xs rule: chunks.induct)
  case (1 n xs)
  show ?case
  proof (cases "xs = []")
    case True
    then show ?thesis by (simp add: chunks_Nil)
  next
    case False
    then show ?thesis using 1 by (simp add: chunks_step)
  qed
qed

lemma chunks_bounds: "c \<in> set (chunks n xs) \<Longrightarrow> 0 < length c \<and> length c \<le> n"
proof (induction n xs rule: chunks.induct)
  case (1 n xs)
  show ?case
  proof (cases "n = 0 \<or> xs = []")
    case True
    then show ?thesis using 1(2) by (auto simp: chunks.simps)
  next
    case False
    then have "c = take n xs \<or> c \<in> set (chunks n (drop n xs))"
      using 1(2) by (simp add: chunks_step)
    then show ?thesis using False 1(1) by auto
  qed
qed

lemma chunks_full: "c \<in> set (butlast (chunks n xs)) \<Longrightarrow> length c = n"
proof (induction n xs rule: chunks.induct)
  case (1 n xs)
  show ?case
  proof (cases "n = 0 \<or> xs = []")
    case True
    then show ?thesis using 1(2) by (auto simp: chunks.simps)
  next
    case False
    then have eq: "chunks n xs = take n xs # chunks n (drop n xs)"
      by (simp add: chunks_step)
    show ?thesis
    proof (cases "chunks n (drop n xs) = []")
      case True
      then show ?thesis using 1(2) eq by simp
    next
      case ne: False
      then have "drop n xs \<noteq> []" by (auto simp: chunks_Nil)
      then have "length (take n xs) = n" by simp
      moreover have "c = take n xs \<or> c \<in> set (butlast (chunks n (drop n xs)))"
        using 1(2) eq ne by simp
      ultimately show ?thesis using False 1(1) by auto
    qed
  qed
qed

lemma loop_base64:
  "writeAttachmentBody_loop qp Base64 io = concat (map (\<lambda>c. toBase64 c @ CRLF) (chunks 57 io))"
proof (induction "length io" arbitrary: io rule: less_induct)
  case less
  show ?case
  proof (cases "io = []")
    case True
    then show ?thesis by (simp add: writeAttachmentBody_loop.simps chunks_Nil)
  next
    case False
    then have "length (drop 57 io) < length io" by simp
    then have "writeAttachmentBody_loop qp Base64 (drop 57 io) =
        concat (map (\<lambda>c. toBase64 c @ CRLF) (chunks 57 (drop 57 io)))"
      by (rule less)
    then show ?thesis using False
      by (subst writeAttachmentBody_loop.simps) (simp add: chunks_step)
  qed
qed

lemma lines_of_base64:
  "split_crlf [] (concat (map (\<lambda>c. toBase64 c @ CRLF) cs)) = map toBase64 cs @ [[]]"
proof (induction cs)
  case Nil
  then show ?case by simp
next
  case (Cons c cs)
  have "split_crlf [] (toBase64 c @ CRLF @ concat (map (\<lambda>c. toBase64 c @ CRLF) cs)) =
      ([] @ toBase64 c) # split_crlf [] (concat (map (\<lambda>c. toBase64 c @ CRLF) cs))"
    by (rule split_crlf_line) (rule CR_not_in_toBase64)
  then show ?case using Cons by simp
qed

lemma base64_line_length: "length c \<le> 57 \<Longrightarrow> length (toBase64 c) \<le> 76"
  by (simp add: length_toBase64)

text \<open>
  Claim C6. For an attachment whose transfer encoding is Base64, that is available
  locally and whose device holds the bytes \<open>io\<close>, \<open>writeAttachmentBody\<close> succeeds and
  writes, for each block of the input in turn, the block's Base64 encoding followed by
  CRLF. The blocks are the reads of \<open>76*6/8 = 57\<close> bytes: together they are the input,
  every block but the last has exactly 57 bytes and the last has between 1 and 57. Every
  line of the output, its CRLF excluded, has at most 76 characters.
\<close>

theorem writeAttachmentBody_base64:
  assumes "suggestedCTE A attachment = Base64"
    and "isAvailableLocally A attachment"
    and "rawData A attachment = Some io"
  shows "writeAttachmentBody qp A attachment =
           Inr (concat (map (\<lambda>c. toBase64 c @ CRLF) (chunks 57 io)))
       \<and> concat (chunks 57 io) = io
       \<and> (\<forall>c \<in> set (chunks 57 io). 0 < length c \<and> length c \<le> 57)
       \<and> (\<forall>c \<in> set (butlast (chunks 57 io)). length c = 57)
       \<and> (\<forall>out. writeAttachmentBody qp A attachment = Inr out \<longrightarrow>
            (\<forall>l \<in> set (lines_of out). length l \<le> 76))"
proof -
  let ?out = "concat (map (\<lambda>c. toBase64 c @ CRLF) (chunks 57 io))"
  have res: "writeAttachmentBody qp A attachment = Inr ?out"
    using assms by (simp add: writeAttachmentBody_def loop_base64)
  have lines: "lines_of ?out = map toBase64 (chunks 57 io) @ [[]]"
    unfolding lines_of_def by (rule lines_of_base64)
  have "\<forall>l \<in> set (lines_of ?out). length l \<le> 76"
    unfolding lines by (auto dest: chunks_bounds intro: base64_line_length)
  then show ?thesis
    using res by (auto simp: concat_chunks dest: chunks_bounds chunks_full)
qed


theorem writeAttachmentBody_base64_witness:
  "writeAttachmentBody id exampleContract LocalFile =
     Inr (''YWFhYWFhYWFhYWFhYWFhYWFhYWFhYWFhYWFhYWFhYWFhYWFhYWFhYWFhYWFhYWFhYWFhYWFhYWFh'' @ CRLF @
          ''YWFh'' @ CRLF)
   \<and> list_all (\<lambda>l. length l \<le> 76)
        (lines_of
          (''YWFhYWFhYWFhYWFhYWFhYWFhYWFhYWFhYWFhYWFhYWFhYWFhYWFhYWFhYWFhYWFhYWFhYWFhYWFh'' @ CRLF @
           ''YWFh'' @ CRLF))"
proof -
  let ?io = "''aaaaaaaaaaaaaaaaaaaaaaaaaaaaaaaaaaaaaaaaaaaaaaaaaaaaaaaaaaaa''"
  have cte: "suggestedCTE exampleContract LocalFile = Base64"
    by (simp add: exampleContract_def)
  have avail: "isAvailableLocally exampleContract LocalFile"
    by (simp add: exampleContract_def)
  have raw: "rawData exampleContract LocalFile = Some ?io"
    by (simp add: exampleContract_def)
  have blocks: "chunks 57 ?io =
      [''aaaaaaaaaaaaaaaaaaaaaaaaaaaaaaaaaaaaaaaaaaaaaaaaaaaaaaaaa'', ''aaa'']"
    by (simp add: chunks.simps)
  have first_line: "toBase64 ''aaaaaaaaaaaaaaaaaaaaaaaaaaaaaaaaaaaaaaaaaaaaaaaaaaaaaaaaa'' =
      ''YWFhYWFhYWFhYWFhYWFhYWFhYWFhYWFhYWFhYWFhYWFhYWFhYWFhYWFhYWFhYWFhYWFhYWFhYWFh''"
    by (simp add: base64_char_def base64_alphabet_def)
  have last_line: "toBase64 ''aaa'' = ''YWFh''"
    by (simp add: base64_char_def base64_alphabet_def)
  show ?thesis
    using writeAttachmentBody_base64 [OF cte avail raw, of id]
    by (simp add: blocks first_line last_line list_all_iff del: toBase64.simps)
qed

section \<open>Wrapping a header of message-ids\<close>

lemma split_crlf_length: "l \<in> set (split_crlf cur xs) \<Longrightarrow> length l \<le> length cur + length xs"
  by (induction cur xs rule: split_crlf.induct) (auto split: if_splits)

lemma split_crlf_append:
  "split_crlf cur (xs @ CRLF @ r) = split_crlf cur xs @ split_crlf [] r"
proof (induction cur xs rule: split_crlf.induct)
  case (1 cur)
  then show ?case by (simp add: CRLF_def)
next
  case (2 cur c)
  then show ?case by (simp add: CRLF_def CR_def LF_def)
next
  case (3 cur a b r')
  then show ?case by simp
qed


lemma msgIds_loop_lines:
  assumes "length pre = charCount"
    and "charCount \<le> 78"
    and "i = 0 \<Longrightarrow> ms \<noteq> [] \<Longrightarrow> charCount + length (hd ms) + 3 \<le> 78"
    and "\<forall>m \<in> set (if i = 0 then tl ms else ms). length m \<le> 75"
    and "l \<in> set (split_crlf [] (pre @ writeHeaderWithMsgIds_loop i charCount ms @ CRLF))"
  shows "length l \<le> 78"
  using assms
proof (induction ms arbitrary: pre charCount i)
  case Nil
  then have "l \<in> set (split_crlf [] pre @ split_crlf [] [])"
    using split_crlf_append [of "[]" pre "[]"] by simp
  then have "l = [] \<or> l \<in> set (split_crlf [] pre)" by auto
  then show ?case using Nil.prems(1,2) by (auto dest: split_crlf_length)
next
  case (Cons m ms)
  let ?item = "'' <'' @ m @ ''>''"
  have later: "\<forall>m \<in> set (if Suc i = 0 then tl ms else ms). length m \<le> 75"
    using Cons.prems(4) by (auto split: if_splits)
  show ?case
  proof (cases "i \<noteq> 0 \<and> charCount \<noteq> 0 \<and> charCount + length m > 78 - 3")
    case True
    then have m75: "length m \<le> 75" using Cons.prems(4) by simp
    have out: "pre @ writeHeaderWithMsgIds_loop i charCount (m # ms) @ CRLF =
        pre @ CRLF @ (?item @ writeHeaderWithMsgIds_loop (Suc i) (length m + 3) ms @ CRLF)"
      using True by simp
    have "l \<in> set (split_crlf [] pre) \<or>
        l \<in> set (split_crlf [] (?item @ writeHeaderWithMsgIds_loop (Suc i) (length m + 3) ms @ CRLF))"
      using Cons.prems(5) unfolding out split_crlf_append by auto
    then show ?thesis
    proof
      assume "l \<in> set (split_crlf [] pre)"
      then show ?thesis using Cons.prems(1,2) by (auto dest: split_crlf_length)
    next
      assume rest: "l \<in> set (split_crlf []
        (?item @ writeHeaderWithMsgIds_loop (Suc i) (length m + 3) ms @ CRLF))"
      show ?thesis
      proof (rule Cons.IH [OF _ _ _ later rest])
        show "length ?item = length m + 3" by simp
        show "length m + 3 \<le> 78" using m75 by simp
        show "length m + 3 + length (hd ms) + 3 \<le> 78" if "Suc i = 0"
          using that by simp
      qed
    qed
  next
    case False
    have fits: "charCount + (length m + 3) \<le> 78"
    proof (cases "i = 0")
      case True
      then show ?thesis using Cons.prems(3) by simp
    next
      case i: False
      then have "length m \<le> 75" using Cons.prems(4) by simp
      then show ?thesis using False i by (cases "charCount = 0") auto
    qed
    have out: "pre @ writeHeaderWithMsgIds_loop i charCount (m # ms) @ CRLF =
        (pre @ ?item) @ writeHeaderWithMsgIds_loop (Suc i) (charCount + (length m + 3)) ms @ CRLF"
      using False by auto
    have rest: "l \<in> set (split_crlf []
        ((pre @ ?item) @ writeHeaderWithMsgIds_loop (Suc i) (charCount + (length m + 3)) ms @ CRLF))"
      using Cons.prems(5) unfolding out .
    show ?thesis
    proof (rule Cons.IH [OF _ _ _ later rest])
      show "length (pre @ ?item) = charCount + (length m + 3)"
        using Cons.prems(1) by simp
      show "charCount + (length m + 3) \<le> 78" by (rule fits)
      show "charCount + (length m + 3) + length (hd ms) + 3 \<le> 78" if "Suc i = 0"
        using that by simp
    qed
  qed
qed


lemma msgIds_loop_folded:
  "\<exists>breaks. length breaks = length ms \<and> (i = 0 \<longrightarrow> ms \<noteq> [] \<longrightarrow> \<not> hd breaks) \<and>
     writeHeaderWithMsgIds_loop i charCount ms = folded breaks ms"
proof (induction ms arbitrary: i charCount)
  case Nil
  then show ?case by (simp add: folded_def)
next
  case (Cons m ms)
  show ?case
  proof (cases "i \<noteq> 0 \<and> charCount \<noteq> 0 \<and> charCount + length m > 78 - 3")
    case True
    obtain breaks where breaks: "length breaks = length ms"
      and rest: "writeHeaderWithMsgIds_loop (Suc i) (0 + (length m + 3)) ms = folded breaks ms"
      using Cons.IH [of "Suc i" "0 + (length m + 3)"] by blast
    have "writeHeaderWithMsgIds_loop i charCount (m # ms) = folded (True # breaks) (m # ms)"
      using True rest by (simp add: folded_def)
    moreover have "length (True # breaks) = length (m # ms)"
      using breaks by simp
    moreover have "i \<noteq> 0" using True by simp
    ultimately show ?thesis by blast
  next
    case False
    obtain breaks where breaks: "length breaks = length ms"
      and rest: "writeHeaderWithMsgIds_loop (Suc i) (charCount + (length m + 3)) ms =
        folded breaks ms"
      using Cons.IH [of "Suc i" "charCount + (length m + 3)"] by blast
    have "writeHeaderWithMsgIds_loop i charCount (m # ms) = folded (False # breaks) (m # ms)"
      using False rest by (auto simp: folded_def)
    moreover have "length (False # breaks) = length (m # ms)"
      using breaks by simp
    moreover have "\<not> hd (False # breaks)" by simp
    ultimately show ?thesis by blast
  qed
qed

text \<open>
  Claim C7, as amended. \<open>writeHeaderWithMsgIds\<close> writes nothing for an empty list.
  Otherwise it writes the header name, a colon and each id as \<open> <id>\<close>, with a line break
  in front of some of the ids but never the first, and a CRLF at the end. The loop does
  not break the line before the first id nor inside an id, so the lines stay within 78
  characters when the ids leave room: when the first id fits after the header name
  (name, colon, space and brackets included) and every later id has at most 75
  characters.
\<close>

theorem writeHeaderWithMsgIds_wrapped:
  "writeHeaderWithMsgIds headerName [] = []
   \<and> (messageIds \<noteq> [] \<longrightarrow>
        (\<exists>breaks. length breaks = length messageIds \<and> \<not> hd breaks \<and>
           writeHeaderWithMsgIds headerName messageIds =
             headerName @ '':'' @ folded breaks messageIds @ CRLF))
   \<and> (messageIds \<noteq> [] \<longrightarrow>
        length headerName + length (hd messageIds) + 4 \<le> 78 \<longrightarrow>
        (\<forall>m \<in> set (tl messageIds). length m \<le> 75) \<longrightarrow>
        (\<forall>l \<in> set (lines_of (writeHeaderWithMsgIds headerName messageIds)). length l \<le> 78))"
proof (intro conjI impI ballI)
  show "writeHeaderWithMsgIds headerName [] = []"
    by (simp add: writeHeaderWithMsgIds_def)
next
  assume "messageIds \<noteq> []"
  then show "\<exists>breaks. length breaks = length messageIds \<and> \<not> hd breaks \<and>
      writeHeaderWithMsgIds headerName messageIds =
        headerName @ '':'' @ folded breaks messageIds @ CRLF"
    using msgIds_loop_folded [of messageIds 0 "length headerName + 1"]
    by (auto simp: writeHeaderWithMsgIds_def)
next
  fix l
  assume ne: "messageIds \<noteq> []"
    and first: "length headerName + length (hd messageIds) + 4 \<le> 78"
    and later: "\<forall>m \<in> set (tl messageIds). length m \<le> 75"
    and l: "l \<in> set (lines_of (writeHeaderWithMsgIds headerName messageIds))"
  let ?pre = "headerName @ '':''"
  have l': "l \<in> set (split_crlf []
      (?pre @ writeHeaderWithMsgIds_loop 0 (length headerName + 1) messageIds @ CRLF))"
    using l ne by (simp add: lines_of_def writeHeaderWithMsgIds_def)
  show "length l \<le> 78"
  proof (rule msgIds_loop_lines [OF _ _ _ _ l'])
    show "length ?pre = length headerName + 1" by simp
    show "length headerName + 1 \<le> 78" using first by simp
    show "length headerName + 1 + length (hd messageIds) + 3 \<le> 78" using first by simp
    show "\<forall>m \<in> set (if (0::nat) = 0 then tl messageIds else messageIds). length m \<le> 75"
      using later by simp
  qed
qed

theorem writeHeaderWithMsgIds_wrapped_witness:
  "writeHeaderWithMsgIds ''References''
     [''4f1c2a9e-5b7d-4c3a-9e2f-0a1b2c3d4e5f@example.org'',
      ''0d9e8f7a-6b5c-4d3e-2f1a-0b9c8d7e6f5a@example.org''] =
   ''References: <4f1c2a9e-5b7d-4c3a-9e2f-0a1b2c3d4e5f@example.org>'' @ CRLF @
   '' <0d9e8f7a-6b5c-4d3e-2f1a-0b9c8d7e6f5a@example.org>'' @ CRLF
   \<and> list_all (\<lambda>l. length l \<le> 78)
        (lines_of (writeHeaderWithMsgIds ''References''
          [''4f1c2a9e-5b7d-4c3a-9e2f-0a1b2c3d4e5f@example.org'',
           ''0d9e8f7a-6b5c-4d3e-2f1a-0b9c8d7e6f5a@example.org'']))"
proof -
  have out: "writeHeaderWithMsgIds ''References''
     [''4f1c2a9e-5b7d-4c3a-9e2f-0a1b2c3d4e5f@example.org'',
      ''0d9e8f7a-6b5c-4d3e-2f1a-0b9c8d7e6f5a@example.org''] =
   ''References: <4f1c2a9e-5b7d-4c3a-9e2f-0a1b2c3d4e5f@example.org>'' @ CRLF @
   '' <0d9e8f7a-6b5c-4d3e-2f1a-0b9c8d7e6f5a@example.org>'' @ CRLF"
    by (simp add: writeHeaderWithMsgIds_def)
  have "\<forall>l \<in> set (lines_of (writeHeaderWithMsgIds ''References''
          [''4f1c2a9e-5b7d-4c3a-9e2f-0a1b2c3d4e5f@example.org'',
           ''0d9e8f7a-6b5c-4d3e-2f1a-0b9c8d7e6f5a@example.org''])). length l \<le> 78"
    using writeHeaderWithMsgIds_wrapped [of "''References''"
          "[''4f1c2a9e-5b7d-4c3a-9e2f-0a1b2c3d4e5f@example.org'',
           ''0d9e8f7a-6b5c-4d3e-2f1a-0b9c8d7e6f5a@example.org'']"]
    by simp
  then show ?thesis
    unfolding list_all_iff using out by blast
qed

theorem writeHeaderWithMsgIds_long_id_counterexample:
  "\<exists>l \<in> set (lines_of (writeHeaderWithMsgIds ''In-Reply-To'' [replicate 64 (CHR ''a'')])).
     78 < length l"
proof -
  let ?line = "''In-Reply-To: <'' @ replicate 64 (CHR ''a'') @ ''>''"
  have "CR \<notin> set ?line"
    by (simp add: CR_def)
  then have "split_crlf [] (?line @ CRLF @ []) = ([] @ ?line) # split_crlf [] []"
    by (rule split_crlf_line)
  then have "lines_of (writeHeaderWithMsgIds ''In-Reply-To'' [replicate 64 (CHR ''a'')]) =
      [?line, []]"
    by (simp add: lines_of_def writeHeaderWithMsgIds_def)
  then show ?thesis by simp
qed

section \<open>Cached tokens\<close>

lemma ensureRandomStrings_set:
  "ensureRandomStrings L g k c = (c', k') \<Longrightarrow> m_messageId c' \<noteq> None \<and> m_mimeBoundary c' \<noteq> None"
  by (auto simp: ensureRandomStrings_def Let_def split: if_splits)

lemma ensureRandomStrings_cached:
  "m_messageId c \<noteq> None \<Longrightarrow> m_mimeBoundary c \<noteq> None \<Longrightarrow> ensureRandomStrings L g k c = (c, k)"
  by (auto simp: ensureRandomStrings_def)

lemma ensureRandomStrings_again:
  "ensureRandomStrings L g k c = (c', k') \<Longrightarrow> ensureRandomStrings L g' j c' = (c', j)"
  using ensureRandomStrings_set ensureRandomStrings_cached by blast

lemma ensureRandomStrings_draws:
  "ensureRandomStrings L g k c = (c', k') \<Longrightarrow>
   k' = k + (if m_messageId c = None then 1 else 0) + (if m_mimeBoundary c = None then 1 else 0)"
  by (auto simp: ensureRandomStrings_def Let_def split: if_splits)

lemma asRawMessage_state:
  "asRawMessage L A g k c = (r, c', k') \<Longrightarrow> ensureRandomStrings L g k c = (c', k')"
  by (auto simp: asRawMessage_def Let_def split: prod.splits)

lemma asCatenateData_state:
  "asCatenateData L A g k c = (f, c', k') \<Longrightarrow> ensureRandomStrings L g k c = (c', k')"
  by (auto simp: asCatenateData_def Let_def split: prod.splits)

lemma asRawMessage_cached:
  assumes "ensureRandomStrings L g k c = (c', k')"
  shows "asRawMessage L A g' j c' = (fst (asRawMessage L A g k c), c', j)"
  using assms ensureRandomStrings_again [OF assms, of g' j]
  by (simp add: asRawMessage_def)

lemma asCatenateData_cached:
  assumes "ensureRandomStrings L g k c = (c', k')"
  shows "asCatenateData L A g' j c' = (fst (asCatenateData L A g k c), c', j)"
  using assms ensureRandomStrings_again [OF assms, of g' j]
  by (simp add: asCatenateData_def)

text \<open>
  Claim C4. Whichever serialiser runs first on a composer leaves the message-id and the
  MIME boundary set, having drawn at most two UUIDs. From then on every call of either
  serialiser, whatever the UUID generator would give, draws none, leaves the composer as
  it is and returns the very output that the serialiser gives on the first call.
\<close>

theorem serialisation_tokens_cached:
  assumes "asRawMessage L A g k c = (r, c1, k1) \<or> asCatenateData L A g k c = (f, c1, k1)"
  shows "m_messageId c1 \<noteq> None \<and> m_mimeBoundary c1 \<noteq> None
       \<and> k1 \<le> k + 2
       \<and> asRawMessage L A g' j c1 = (fst (asRawMessage L A g k c), c1, j)
       \<and> asCatenateData L A g' j c1 = (fst (asCatenateData L A g k c), c1, j)"
proof -
  have e: "ensureRandomStrings L g k c = (c1, k1)"
    using assms asRawMessage_state asCatenateData_state by blast
  have "k1 \<le> k + 2"
    using ensureRandomStrings_draws [OF e] by simp
  then show ?thesis
    using ensureRandomStrings_set [OF e] asRawMessage_cached [OF e] asCatenateData_cached [OF e]
    by simp
qed

section \<open>Bcc\<close>

lemma groupRecipients_filter_Bcc:
  "groupRecipients L (filter (\<lambda>r. fst r \<noteq> ADDRESS_BCC) rs) rcptTo rcptCc =
   groupRecipients L rs rcptTo rcptCc"
  by (induction L rs rcptTo rcptCc rule: groupRecipients.induct) simp_all

lemma groupRecipients_same_visible:
  assumes "filter (\<lambda>r. fst r \<noteq> ADDRESS_BCC) rs = filter (\<lambda>r. fst r \<noteq> ADDRESS_BCC) rs'"
  shows "groupRecipients L rs rcptTo rcptCc = groupRecipients L rs' rcptTo rcptCc"
  using assms groupRecipients_filter_Bcc [of L rs rcptTo rcptCc]
    groupRecipients_filter_Bcc [of L rs' rcptTo rcptCc]
  by simp

text \<open>
  Claim C5. Two composers that differ only in their recipient lists, the lists having
  the same entries of every kind but Bcc in the same order, get the same bytes from
  \<open>writeCommonMessageBeginning\<close>; \<open>rawRecipientAddresses\<close> lists the SMTP mailbox of every
  recipient, those of kind Bcc included.
\<close>

theorem Bcc_not_in_headers:
  assumes "filter (\<lambda>r. fst r \<noteq> ADDRESS_BCC) rs =
           filter (\<lambda>r. fst r \<noteq> ADDRESS_BCC) (m_recipients c)"
  shows "writeCommonMessageBeginning L (c\<lparr>m_recipients := rs\<rparr>) = writeCommonMessageBeginning L c
       \<and> rawRecipientAddresses L (c\<lparr>m_recipients := rs\<rparr>) = map (\<lambda>r. asSMTPMailbox L (snd r)) rs
       \<and> (\<forall>r \<in> set rs. asSMTPMailbox L (snd r) \<in> set (rawRecipientAddresses L (c\<lparr>m_recipients := rs\<rparr>)))"
  using groupRecipients_same_visible [OF assms, of L "[]" "[]"]
  by (simp add: writeCommonMessageBeginning_def rawRecipientAddresses_def
      split: sum.split prod.split)

section \<open>Fragments\<close>

lemma extends_refl: "\<exists>rest. p = (fst p, snd p @ rest)"
  by (rule exI [of _ "[]"]) simp

lemma write_back_nonempty: "write_back target bs \<noteq> []"
  by (simp add: write_back_def)

lemma map_fst_write_back: "target \<noteq> [] \<Longrightarrow> map fst (write_back target bs) = map fst target"
proof -
  assume "target \<noteq> []"
  then have "map fst target = map fst (butlast target @ [last target])" by simp
  then show ?thesis by (simp add: write_back_def)
qed

lemma fst_last_write_back: "fst (last (write_back target bs)) = fst (last target)"
  by (simp add: write_back_def)

lemma hd_write_back:
  "target \<noteq> [] \<Longrightarrow> \<exists>rest. hd (write_back target bs) = (fst (hd target), snd (hd target) @ rest)"
proof (cases "butlast target = []")
  case True
  assume "target \<noteq> []"
  then have "target = [last target]" using True
    by (metis append_Nil append_butlast_last_id)
  then have "hd target = last target" by (metis list.sel(1))
  then show ?thesis using True by (simp add: write_back_def)
next
  case False
  assume "target \<noteq> []"
  have "hd (write_back target bs) = hd (butlast target)"
    using False by (simp add: write_back_def)
  also have "\<dots> = hd target"
    using False by (metis append_butlast_last_id butlast.simps(1) hd_append2)
  finally show ?thesis using extends_refl [of "hd target"] by simp
qed

lemma ensure_text_back_nonempty: "target \<noteq> [] \<Longrightarrow> ensure_text_back target \<noteq> []"
  by (simp add: ensure_text_back_def)

lemma fst_last_ensure_text_back: "fst (last (ensure_text_back target)) = CATENATE_TEXT"
  by (simp add: ensure_text_back_def)

lemma hd_ensure_text_back: "target \<noteq> [] \<Longrightarrow> hd (ensure_text_back target) = hd target"
  by (simp add: ensure_text_back_def)

lemma distinct_adj_snoc:
  "xs \<noteq> [] \<Longrightarrow> distinct_adj (xs @ [y]) = (distinct_adj xs \<and> last xs \<noteq> y)"
  by (simp add: distinct_adj_append_iff)

lemma distinct_adj_ensure_text_back:
  assumes "target \<noteq> []" and "distinct_adj (map fst target)"
  shows "distinct_adj (map fst (ensure_text_back target))"
  using assms by (simp add: ensure_text_back_def distinct_adj_snoc last_map)

lemma distinct_adj_add_url:
  assumes "target \<noteq> []" and "distinct_adj (map fst target)" and "fst (last target) = CATENATE_TEXT"
  shows "distinct_adj (map fst (target @ [(CATENATE_URL, url)]))"
  using assms by (simp add: distinct_adj_snoc last_map)

lemma asCatenateData_loop_shape:
  assumes "asCatenateData_loop L A c target attachments = Inr target'"
    and "target \<noteq> []"
    and "distinct_adj (map fst target)"
  shows "target' \<noteq> [] \<and> distinct_adj (map fst target') \<and>
         (\<exists>rest. hd target' = (fst (hd target), snd (hd target) @ rest))"
  using assms
proof (induction attachments arbitrary: target)
  case Nil
  then show ?case using extends_refl [of "hd target'"] by simp
next
  case (Cons a attachments)
  let ?t1 = "ensure_text_back target"
  obtain header where header: "writeAttachmentHeader A c a = Inr header"
    using Cons.prems(1) by (auto simp: Let_def split: sum.splits)
  let ?t2 = "write_back ?t1 header"
  have t1: "?t1 \<noteq> []" "distinct_adj (map fst ?t1)" "fst (last ?t1) = CATENATE_TEXT"
      "hd ?t1 = hd target"
    using Cons.prems(2,3)
    by (simp_all add: ensure_text_back_nonempty distinct_adj_ensure_text_back
        fst_last_ensure_text_back hd_ensure_text_back)
  have t2: "?t2 \<noteq> []" "distinct_adj (map fst ?t2)" "fst (last ?t2) = CATENATE_TEXT"
    using t1 by (simp_all add: write_back_nonempty map_fst_write_back fst_last_write_back)
  obtain r2 where r2: "hd ?t2 = (fst (hd target), snd (hd target) @ r2)"
    using hd_write_back [OF t1(1), of header] t1(4) by auto
  show ?case
  proof (cases "imapUrl A a = []")
    case True
    then obtain body where body: "writeAttachmentBody (quotedPrintableEncode L) A a = Inr body"
      and rec: "asCatenateData_loop L A c (write_back ?t2 body) attachments = Inr target'"
      using Cons.prems(1) header by (auto simp: Let_def split: sum.splits)
    let ?t3 = "write_back ?t2 body"
    have t3: "?t3 \<noteq> []" "distinct_adj (map fst ?t3)"
      using t2 by (simp_all add: write_back_nonempty map_fst_write_back)
    obtain r3 where r3: "hd ?t3 = (fst (hd ?t2), snd (hd ?t2) @ r3)"
      using hd_write_back [OF t2(1), of body] by auto
    obtain r where "hd target' = (fst (hd ?t3), snd (hd ?t3) @ r)"
      and "target' \<noteq> []" and "distinct_adj (map fst target')"
      using Cons.IH [OF rec t3] by auto
    then show ?thesis using r2 r3 by simp
  next
    case False
    let ?t3 = "?t2 @ [(CATENATE_URL, imapUrl A a)]"
    have rec: "asCatenateData_loop L A c ?t3 attachments = Inr target'"
      using Cons.prems(1) header False by (auto simp: Let_def)
    have t3: "?t3 \<noteq> []" "distinct_adj (map fst ?t3)"
      using distinct_adj_add_url [OF t2] by simp_all
    have "hd ?t3 = hd ?t2" using t2(1) by simp
    moreover obtain r where "hd target' = (fst (hd ?t3), snd (hd ?t3) @ r)"
      and "target' \<noteq> []" and "distinct_adj (map fst target')"
      using Cons.IH [OF rec t3] by auto
    ultimately show ?thesis using r2 by simp
  qed
qed

lemma asCatenateData_result:
  assumes "asCatenateData L A g k c = (Inr frags, c', k')"
  obtains beginning where "writeCommonMessageBeginning L c' = Inr beginning"
    and "m_attachments c' = m_attachments c"
    and "m_attachments c = [] \<Longrightarrow> frags = [(CATENATE_TEXT, beginning)]"
    and "m_attachments c \<noteq> [] \<Longrightarrow> \<exists>target'.
          asCatenateData_loop L A c' [(CATENATE_TEXT, beginning)] (m_attachments c) = Inr target' \<and>
          frags = write_back (ensure_text_back target')
                    (CRLF @ ''--'' @ bytes (m_mimeBoundary c') @ ''--'' @ CRLF)"
proof -
  have e: "ensureRandomStrings L g k c = (c', k')"
    using assms by (rule asCatenateData_state)
  have atts: "m_attachments c' = m_attachments c"
    using e by (auto simp: ensureRandomStrings_def Let_def split: if_splits)
  have wb: "write_back [(CATENATE_TEXT, [])] b = [(CATENATE_TEXT, b)]" for b
    by (simp add: write_back_def)
  from assms e obtain beginning where b: "writeCommonMessageBeginning L c' = Inr beginning"
    by (auto simp: asCatenateData_def split: sum.splits)
  show ?thesis
  proof (rule that [OF b atts])
    assume "m_attachments c = []"
    then show "frags = [(CATENATE_TEXT, beginning)]"
      using assms e b atts by (auto simp: asCatenateData_def wb)
  next
    assume "m_attachments c \<noteq> []"
    then show "\<exists>target'.
          asCatenateData_loop L A c' [(CATENATE_TEXT, beginning)] (m_attachments c) = Inr target' \<and>
          frags = write_back (ensure_text_back target')
                    (CRLF @ ''--'' @ bytes (m_mimeBoundary c') @ ''--'' @ CRLF)"
      using assms e b atts by (auto simp: asCatenateData_def wb split: sum.splits)
  qed
qed

text \<open>
  Claim C10. When \<open>asCatenateData\<close> succeeds, its fragment list is not empty, the first
  fragment is a text fragment that starts with the common beginning of the message, no
  two neighbours are of the same kind, and without attachments the list is that one text
  fragment.
\<close>

theorem asCatenateData_fragments:
  assumes "asCatenateData L A g k c = (Inr frags, c', k')"
  shows "frags \<noteq> []
       \<and> (\<exists>beginning rest. writeCommonMessageBeginning L c' = Inr beginning \<and>
            hd frags = (CATENATE_TEXT, beginning @ rest))
       \<and> distinct_adj (map fst frags)
       \<and> (m_attachments c = [] \<longrightarrow>
            (\<exists>beginning. writeCommonMessageBeginning L c' = Inr beginning \<and>
               frags = [(CATENATE_TEXT, beginning)]))"
proof -
  from assms obtain beginning where b: "writeCommonMessageBeginning L c' = Inr beginning"
    and empty: "m_attachments c = [] \<Longrightarrow> frags = [(CATENATE_TEXT, beginning)]"
    and loop: "m_attachments c \<noteq> [] \<Longrightarrow> \<exists>target'.
          asCatenateData_loop L A c' [(CATENATE_TEXT, beginning)] (m_attachments c) = Inr target' \<and>
          frags = write_back (ensure_text_back target')
                    (CRLF @ ''--'' @ bytes (m_mimeBoundary c') @ ''--'' @ CRLF)"
    by (rule asCatenateData_result) blast
  show ?thesis
  proof (cases "m_attachments c = []")
    case True
    then show ?thesis using b empty by simp
  next
    case False
    then obtain target' where t: "asCatenateData_loop L A c' [(CATENATE_TEXT, beginning)]
          (m_attachments c) = Inr target'"
      and frags: "frags = write_back (ensure_text_back target')
          (CRLF @ ''--'' @ bytes (m_mimeBoundary c') @ ''--'' @ CRLF)"
      using loop by blast
    obtain r where shape: "target' \<noteq> []" "distinct_adj (map fst target')"
        "hd target' = (CATENATE_TEXT, beginning @ r)"
      using asCatenateData_loop_shape [OF t] by auto
    let ?t1 = "ensure_text_back target'"
    have t1: "?t1 \<noteq> []" "distinct_adj (map fst ?t1)" "hd ?t1 = hd target'"
      using shape by (simp_all add: ensure_text_back_nonempty distinct_adj_ensure_text_back
          hd_ensure_text_back)
    obtain r' where "hd frags = (fst (hd ?t1), snd (hd ?t1) @ r')"
      using hd_write_back [OF t1(1)] frags by blast
    then have "hd frags = (CATENATE_TEXT, beginning @ (r @ r'))"
      using t1(3) shape(3) by simp
    moreover have "distinct_adj (map fst frags)"
      using t1 frags by (simp add: map_fst_write_back)
    moreover have "frags \<noteq> []"
      using frags by (simp add: write_back_nonempty)
    ultimately show ?thesis using b False by blast
  qed
qed

section \<open>Catenating the fragments\<close>

lemma catenate_append:
  "urls xs = length bs \<Longrightarrow> catenate (xs @ ys) (bs @ bs') = catenate xs bs @ catenate ys bs'"
proof (induction xs bs rule: catenate.induct)
  case (1 bodies)
  then show ?case by (simp add: urls_def)
next
  case (2 b rest bodies)
  then show ?case by (simp add: urls_def)
next
  case (3 url rest)
  then show ?case by (simp add: urls_def)
next
  case (4 url rest body bodies)
  then show ?case by (simp add: urls_def)
qed

lemma catenate_write_back:
  assumes "target \<noteq> []" and "fst (last target) = CATENATE_TEXT" and "urls target = length bs"
  shows "catenate (write_back target x) bs = catenate target bs @ x"
proof -
  obtain b where last: "last target = (CATENATE_TEXT, b)"
    using assms(2) by (cases "last target") simp
  have split: "target = butlast target @ [(CATENATE_TEXT, b)]"
    using assms(1) last by (metis append_butlast_last_id)
  have u: "urls (butlast target) = length bs"
    using assms(3) by (subst (asm) split) (simp add: urls_def)
  have "catenate (write_back target x) bs = catenate (butlast target @ [(CATENATE_TEXT, b @ x)]) (bs @ [])"
    using last by (simp add: write_back_def)
  also have "\<dots> = catenate (butlast target) bs @ b @ x"
    by (subst catenate_append [OF u]) simp
  also have "\<dots> = catenate (butlast target @ [(CATENATE_TEXT, b)]) (bs @ []) @ x"
    by (subst catenate_append [OF u]) simp
  finally show ?thesis using split by simp
qed

lemma urls_write_back: "target \<noteq> [] \<Longrightarrow> urls (write_back target x) = urls target"
proof -
  assume "target \<noteq> []"
  then have "target = butlast target @ [last target]" by simp
  then have "urls target = urls (butlast target @ [last target])" by simp
  then show ?thesis by (simp add: urls_def write_back_def)
qed

lemma urls_ensure_text_back: "urls (ensure_text_back target) = urls target"
  by (simp add: urls_def ensure_text_back_def)

lemma catenate_ensure_text_back:
  "urls target = length bs \<Longrightarrow> catenate (ensure_text_back target) bs = catenate target bs"
  using catenate_append [of target bs "[(CATENATE_TEXT, [])]" "[]"]
  by (simp add: ensure_text_back_def)

lemma catenate_add_url:
  "urls target = length bs \<Longrightarrow>
   catenate (target @ [(CATENATE_URL, url)]) (bs @ [body]) = catenate target bs @ body"
  using catenate_append [of target bs "[(CATENATE_URL, url)]" "[body]"] by simp

lemma loops_agree:
  assumes "asRawMessage_loop L A c raw attachments = Inr raw'"
    and "asCatenateData_loop L A c target attachments = Inr target'"
    and "target \<noteq> []"
    and "urls target = length bs"
    and "catenate target bs = raw"
  shows "target' \<noteq> [] \<and> urls target' = length (bs @ remoteBodies L A attachments) \<and>
         catenate target' (bs @ remoteBodies L A attachments) = raw'"
  using assms
proof (induction attachments arbitrary: raw target bs)
  case Nil
  then show ?case by (simp add: remoteBodies_def)
next
  case (Cons a attachments)
  obtain header body where header: "writeAttachmentHeader A c a = Inr header"
    and body: "writeAttachmentBody (quotedPrintableEncode L) A a = Inr body"
    and raw_rec: "asRawMessage_loop L A c (raw @ header @ body) attachments = Inr raw'"
    using Cons.prems(1) by (auto split: sum.splits)
  have inl: "inlinedBody L A a = body"
    using body by (simp add: inlinedBody_def)
  let ?t1 = "ensure_text_back target"
  let ?t2 = "write_back ?t1 header"
  have t1: "?t1 \<noteq> []" "fst (last ?t1) = CATENATE_TEXT" "urls ?t1 = length bs"
      "catenate ?t1 bs = raw"
    using Cons.prems(3,4,5)
    by (simp_all add: ensure_text_back_nonempty fst_last_ensure_text_back urls_ensure_text_back
        catenate_ensure_text_back)
  have t2: "?t2 \<noteq> []" "fst (last ?t2) = CATENATE_TEXT" "urls ?t2 = length bs"
      "catenate ?t2 bs = raw @ header"
    using t1 by (simp_all add: write_back_nonempty fst_last_write_back urls_write_back
        catenate_write_back)
  show ?case
  proof (cases "imapUrl A a = []")
    case True
    let ?t3 = "write_back ?t2 body"
    have rec: "asCatenateData_loop L A c ?t3 attachments = Inr target'"
      using Cons.prems(2) header body True by (simp add: Let_def)
    have t3: "?t3 \<noteq> []" "urls ?t3 = length bs" "catenate ?t3 bs = raw @ header @ body"
      using t2 by (simp_all add: write_back_nonempty urls_write_back catenate_write_back)
    have "remoteBodies L A (a # attachments) = remoteBodies L A attachments"
      using True by (simp add: remoteBodies_def)
    then show ?thesis using Cons.IH [OF raw_rec rec t3] by simp
  next
    case False
    let ?t3 = "?t2 @ [(CATENATE_URL, imapUrl A a)]"
    have rec: "asCatenateData_loop L A c ?t3 attachments = Inr target'"
      using Cons.prems(2) header False by (simp add: Let_def)
    have t3: "?t3 \<noteq> []" "urls ?t3 = length (bs @ [body])"
        "catenate ?t3 (bs @ [body]) = raw @ header @ body"
      using t2 catenate_add_url [OF t2(3), of "imapUrl A a" body] by (simp_all add: urls_def)
    have "remoteBodies L A (a # attachments) = body # remoteBodies L A attachments"
      using False inl by (simp add: remoteBodies_def)
    then show ?thesis using Cons.IH [OF raw_rec rec t3] by simp
  qed
qed

lemma asRawMessage_loop_bodies:
  "asRawMessage_loop L A c raw attachments = Inr raw' \<Longrightarrow> a \<in> set attachments \<Longrightarrow>
   writeAttachmentBody (quotedPrintableEncode L) A a = Inr (inlinedBody L A a)"
proof (induction attachments arbitrary: raw)
  case Nil
  then show ?case by simp
next
  case (Cons x attachments)
  then show ?case by (auto simp: inlinedBody_def split: sum.splits)
qed

lemma asRawMessage_result:
  assumes "asRawMessage L A g k c = (Inr raw, c', k')"
  obtains beginning where "writeCommonMessageBeginning L c' = Inr beginning"
    and "m_attachments c = [] \<Longrightarrow> raw = beginning"
    and "m_attachments c \<noteq> [] \<Longrightarrow> \<exists>raw'.
          asRawMessage_loop L A c' beginning (m_attachments c) = Inr raw' \<and>
          raw = raw' @ CRLF @ ''--'' @ bytes (m_mimeBoundary c') @ ''--'' @ CRLF"
proof -
  have e: "ensureRandomStrings L g k c = (c', k')"
    using assms by (rule asRawMessage_state)
  have atts: "m_attachments c' = m_attachments c"
    using e by (auto simp: ensureRandomStrings_def Let_def split: if_splits)
  from assms e obtain beginning where b: "writeCommonMessageBeginning L c' = Inr beginning"
    by (auto simp: asRawMessage_def split: sum.splits)
  show ?thesis
  proof (rule that [OF b])
    assume "m_attachments c = []"
    then show "raw = beginning"
      using assms e b atts by (auto simp: asRawMessage_def)
  next
    assume "m_attachments c \<noteq> []"
    then show "\<exists>raw'.
          asRawMessage_loop L A c' beginning (m_attachments c) = Inr raw' \<and>
          raw = raw' @ CRLF @ ''--'' @ bytes (m_mimeBoundary c') @ ''--'' @ CRLF"
      using assms e b atts by (auto simp: asRawMessage_def split: sum.splits)
  qed
qed

lemma same_tokens_catenate_raw:
  assumes raw: "asRawMessage L A g k c = (Inr raw, c1, k1)"
    and cat: "asCatenateData L A g2 k2 c0 = (Inr frags, c1, k3)"
    and atts: "m_attachments c0 = m_attachments c"
  shows "catenate frags (remoteBodies L A (m_attachments c)) = raw"
proof -
  from raw obtain beginning where b: "writeCommonMessageBeginning L c1 = Inr beginning"
    and raw_empty: "m_attachments c = [] \<Longrightarrow> raw = beginning"
    and raw_loop: "m_attachments c \<noteq> [] \<Longrightarrow> \<exists>raw'.
          asRawMessage_loop L A c1 beginning (m_attachments c) = Inr raw' \<and>
          raw = raw' @ CRLF @ ''--'' @ bytes (m_mimeBoundary c1) @ ''--'' @ CRLF"
    by (rule asRawMessage_result) blast
  from cat obtain beginning' where b': "writeCommonMessageBeginning L c1 = Inr beginning'"
    and cat_empty: "m_attachments c0 = [] \<Longrightarrow> frags = [(CATENATE_TEXT, beginning')]"
    and cat_loop: "m_attachments c0 \<noteq> [] \<Longrightarrow> \<exists>target'.
          asCatenateData_loop L A c1 [(CATENATE_TEXT, beginning')] (m_attachments c0) = Inr target' \<and>
          frags = write_back (ensure_text_back target')
                    (CRLF @ ''--'' @ bytes (m_mimeBoundary c1) @ ''--'' @ CRLF)"
    by (rule asCatenateData_result) blast
  have same: "beginning' = beginning" using b b' by simp
  show ?thesis
  proof (cases "m_attachments c = []")
    case True
    then show ?thesis using raw_empty cat_empty atts same by (simp add: remoteBodies_def)
  next
    case False
    obtain raw' where r: "asRawMessage_loop L A c1 beginning (m_attachments c) = Inr raw'"
      and raw_eq: "raw = raw' @ CRLF @ ''--'' @ bytes (m_mimeBoundary c1) @ ''--'' @ CRLF"
      using raw_loop [OF False] by blast
    obtain target' where t: "asCatenateData_loop L A c1 [(CATENATE_TEXT, beginning)]
          (m_attachments c) = Inr target'"
      and frags: "frags = write_back (ensure_text_back target')
          (CRLF @ ''--'' @ bytes (m_mimeBoundary c1) @ ''--'' @ CRLF)"
      using cat_loop False atts same by auto
    have start: "[(CATENATE_TEXT, beginning)] \<noteq> []" "urls [(CATENATE_TEXT, beginning)] = length ([] :: QByteArray list)"
        "catenate [(CATENATE_TEXT, beginning)] [] = beginning"
      by (simp_all add: urls_def)
    let ?bs = "remoteBodies L A (m_attachments c)"
    have fin: "target' \<noteq> []" "urls target' = length ?bs" "catenate target' ?bs = raw'"
      using loops_agree [OF r t start] by simp_all
    let ?t1 = "ensure_text_back target'"
    have t1: "?t1 \<noteq> []" "fst (last ?t1) = CATENATE_TEXT" "urls ?t1 = length ?bs"
        "catenate ?t1 ?bs = raw'"
      using fin by (simp_all add: ensure_text_back_nonempty fst_last_ensure_text_back
          urls_ensure_text_back catenate_ensure_text_back)
    show ?thesis
      unfolding frags raw_eq using t1 by (simp add: catenate_write_back)
  qed
qed

text \<open>
  Claim C1. When \<open>asRawMessage\<close> and \<open>asCatenateData\<close> both succeed on a composer (both
  from the same state, or the second on the state the first has left, tokens cached),
  both use the same tokens, and the text fragments in order, with each URL fragment
  replaced by the body bytes that \<open>asRawMessage\<close> writes for that attachment, are the raw
  message.
\<close>

theorem catenate_reproduces_raw:
  assumes raw: "asRawMessage L A g k c = (Inr raw, c1, k1)"
    and cat: "asCatenateData L A g k c = (Inr frags, c2, k2) \<or>
              asCatenateData L A g' j c1 = (Inr frags, c2, k2)"
  shows "c2 = c1
       \<and> catenate frags (remoteBodies L A (m_attachments c)) = raw
       \<and> (\<forall>a \<in> set (m_attachments c).
            writeAttachmentBody (quotedPrintableEncode L) A a = Inr (inlinedBody L A a))"
proof -
  have e: "ensureRandomStrings L g k c = (c1, k1)"
    using raw by (rule asRawMessage_state)
  have atts: "m_attachments c1 = m_attachments c"
    using e by (auto simp: ensureRandomStrings_def Let_def split: if_splits)
  have bodies: "\<forall>a \<in> set (m_attachments c).
      writeAttachmentBody (quotedPrintableEncode L) A a = Inr (inlinedBody L A a)"
  proof (cases "m_attachments c = []")
    case True
    then show ?thesis by simp
  next
    case False
    from raw obtain beginning raw' where
      "asRawMessage_loop L A c1 beginning (m_attachments c) = Inr raw'"
      using False by (auto elim!: asRawMessage_result)
    then show ?thesis by (auto intro: asRawMessage_loop_bodies)
  qed
  from cat show ?thesis
  proof
    assume first: "asCatenateData L A g k c = (Inr frags, c2, k2)"
    then have "ensureRandomStrings L g k c = (c2, k2)"
      by (rule asCatenateData_state)
    then have c2: "c2 = c1" using e by simp
    then show ?thesis
      using same_tokens_catenate_raw [OF raw first [unfolded c2]] bodies by simp
  next
    assume later: "asCatenateData L A g' j c1 = (Inr frags, c2, k2)"
    then have "ensureRandomStrings L g' j c1 = (c2, k2)"
      by (rule asCatenateData_state)
    then have c2: "c2 = c1" using ensureRandomStrings_again [OF e, of g' j] by simp
    then show ?thesis
      using same_tokens_catenate_raw [OF raw later [unfolded c2] atts] bodies by simp
  qed
qed

section \<open>Reading against parsing\<close>

lemma setStatus_sticky: "status s \<noteq> Ok \<Longrightarrow> setStatus st s = s"
  by (simp add: setStatus_def)

lemma status_setStatus: "st \<noteq> Ok \<Longrightarrow> status (setStatus st s) \<noteq> Ok"
  by (simp add: setStatus_def)

lemma device_setStatus: "device (setStatus st s) = device s"
  by (simp add: setStatus_def)

lemma readBlock_enough:
  "len \<le> length (device s) \<Longrightarrow> readBlock len s = (take len (device s), s\<lparr>device := drop len (device s)\<rparr>)"
  by (simp add: readBlock_def Let_def)

lemma readBlock_short:
  "length (device s) < len \<Longrightarrow>
   length (fst (readBlock len s)) \<noteq> len \<and> status (snd (readBlock len s)) \<noteq> Ok"
  by (simp add: readBlock_def Let_def status_setStatus)

lemma readBlock_sticky: "status s \<noteq> Ok \<Longrightarrow> status (snd (readBlock len s)) = status s"
  by (simp add: readBlock_def Let_def setStatus_def)

lemma read_quint32_parsed:
  "parse_quint32 (device s) = Some (v, r) \<Longrightarrow> read_quint32 s = (v, s\<lparr>device := r\<rparr>)"
  by (auto simp: parse_quint32_def read_quint32_def readBlock_enough split: if_splits)

lemma read_quint32_failed:
  "parse_quint32 (device s) = None \<Longrightarrow> status (snd (read_quint32 s)) \<noteq> Ok"
  using readBlock_short [of s 4]
  by (auto simp: parse_quint32_def read_quint32_def split: if_splits prod.splits)

lemma read_quint32_sticky: "status s \<noteq> Ok \<Longrightarrow> status (snd (read_quint32 s)) = status s"
  using readBlock_sticky [of s 4]
  by (auto simp: read_quint32_def split: prod.splits)

lemma read_QString_parsed:
  assumes "parse_QString (device s) = Some (v, r)"
  shows "read_QString s = (v, s\<lparr>device := r\<rparr>)"
proof -
  from assms obtain n r1 where n: "parse_quint32 (device s) = Some (n, r1)"
    by (auto simp: parse_QString_def split: option.splits)
  have rd: "read_quint32 s = (n, s\<lparr>device := r1\<rparr>)"
    using n by (rule read_quint32_parsed)
  show ?thesis
  proof (cases "n = 0xffffffff")
    case True
    then show ?thesis using assms n rd by (simp add: parse_QString_def read_QString_def)
  next
    case False
    then have even: "\<not> odd (unat n)" and enough: "unat n \<le> length r1"
      and v: "v = utf16be (take (unat n) r1)" and r: "r = drop (unat n) r1"
      using assms n by (auto simp: parse_QString_def split: if_splits)
    have blk: "readBlock (unat n) (s\<lparr>device := r1\<rparr>) =
        (take (unat n) r1, s\<lparr>device := drop (unat n) r1\<rparr>)"
      using enough readBlock_enough [of "unat n" "s\<lparr>device := r1\<rparr>"] by simp
    show ?thesis
    proof (cases "n > 0")
      case True
      then show ?thesis
        using False even enough v r rd blk by (simp add: read_QString_def)
    next
      case zero: False
      then have "n = 0" by (simp add: word_gt_0)
      then show ?thesis using False v r rd by (simp add: read_QString_def)
    qed
  qed
qed

lemma read_QString_failed:
  assumes "parse_QString (device s) = None"
  shows "status (snd (read_QString s)) \<noteq> Ok"
proof (cases "parse_quint32 (device s)")
  case None
  then have bad: "status (snd (read_quint32 s)) \<noteq> Ok" by (rule read_quint32_failed)
  obtain n s1 where rd: "read_quint32 s = (n, s1)" by (cases "read_quint32 s")
  have s1: "status s1 \<noteq> Ok" using bad rd by simp
  have "length (device s) < 4" using None by (auto simp: parse_quint32_def split: if_splits)
  then have "n = 0" using rd readBlock_short [of s 4]
    by (auto simp: read_quint32_def split: prod.splits if_splits)
  then show ?thesis using rd s1 by (simp add: read_QString_def)
next
  case (Some p)
  obtain n r1 where p: "p = (n, r1)" by (cases p)
  have rd: "read_quint32 s = (n, s\<lparr>device := r1\<rparr>)"
    using Some p by (simp add: read_quint32_parsed)
  have cases: "n \<noteq> 0xffffffff" "odd (unat n) \<or> length r1 < unat n"
    using assms Some p by (auto simp: parse_QString_def split: if_splits)
  then have pos: "n > 0" by (auto simp: word_gt_0 intro: ccontr)
  show ?thesis
  proof (cases "odd (unat n)")
    case True
    then show ?thesis using rd cases(1) pos
      by (simp add: read_QString_def status_setStatus)
  next
    case False
    then have "length r1 < unat n" using cases(2) by simp
    then have "length (fst (readBlock (unat n) (s\<lparr>device := r1\<rparr>))) \<noteq> unat n"
      using readBlock_short [of "s\<lparr>device := r1\<rparr>" "unat n"] by simp
    then show ?thesis using rd cases(1) pos False
      by (auto simp: read_QString_def status_setStatus split: prod.splits)
  qed
qed

lemma read_QString_sticky:
  assumes "status s \<noteq> Ok"
  shows "status (snd (read_QString s)) = status s"
proof -
  obtain n s1 where rd: "read_quint32 s = (n, s1)" by (cases "read_quint32 s")
  have s1: "status s1 = status s" using read_quint32_sticky [OF assms] rd by simp
  obtain got s2 where blk: "readBlock (unat n) s1 = (got, s2)"
    by (cases "readBlock (unat n) s1")
  have s2: "status s2 = status s"
    using readBlock_sticky [of s1 "unat n"] blk s1 assms by simp
  show ?thesis using rd s1 s2 blk assms
    by (simp add: read_QString_def setStatus_def)
qed

lemma read_QByteArray_parsed:
  assumes "parse_QByteArray (device s) = Some (v, r)"
  shows "read_QByteArray s = (v, s\<lparr>device := r\<rparr>)"
proof -
  from assms obtain n r1 where n: "parse_quint32 (device s) = Some (n, r1)"
    by (auto simp: parse_QByteArray_def split: option.splits)
  have rd: "read_quint32 s = (n, s\<lparr>device := r1\<rparr>)"
    using n by (rule read_quint32_parsed)
  show ?thesis
  proof (cases "n = 0xffffffff")
    case True
    then show ?thesis using assms n rd by (simp add: parse_QByteArray_def read_QByteArray_def)
  next
    case False
    then have enough: "unat n \<le> length r1"
      and v: "v = take (unat n) r1" and r: "r = drop (unat n) r1"
      using assms n by (auto simp: parse_QByteArray_def split: if_splits)
    have blk: "readBlock (unat n) (s\<lparr>device := r1\<rparr>) =
        (take (unat n) r1, s\<lparr>device := drop (unat n) r1\<rparr>)"
      using enough readBlock_enough [of "unat n" "s\<lparr>device := r1\<rparr>"] by simp
    show ?thesis
      using False enough v r rd blk by (simp add: read_QByteArray_def)
  qed
qed

lemma read_QByteArray_failed:
  assumes "parse_QByteArray (device s) = None"
  shows "status (snd (read_QByteArray s)) \<noteq> Ok"
proof (cases "parse_quint32 (device s)")
  case None
  then have bad: "status (snd (read_quint32 s)) \<noteq> Ok" by (rule read_quint32_failed)
  obtain n s1 where rd: "read_quint32 s = (n, s1)" by (cases "read_quint32 s")
  have s1: "status s1 \<noteq> Ok" using bad rd by simp
  obtain got s2 where blk: "readBlock (unat n) s1 = (got, s2)"
    by (cases "readBlock (unat n) s1")
  have "status s2 \<noteq> Ok"
    using readBlock_sticky [OF s1, of "unat n"] blk s1 by simp
  then show ?thesis using rd s1 blk by (simp add: read_QByteArray_def setStatus_def)
next
  case (Some p)
  obtain n r1 where p: "p = (n, r1)" by (cases p)
  have rd: "read_quint32 s = (n, s\<lparr>device := r1\<rparr>)"
    using Some p by (simp add: read_quint32_parsed)
  have cases: "n \<noteq> 0xffffffff" "length r1 < unat n"
    using assms Some p by (auto simp: parse_QByteArray_def split: if_splits)
  then have "length (fst (readBlock (unat n) (s\<lparr>device := r1\<rparr>))) \<noteq> unat n"
    using readBlock_short [of "s\<lparr>device := r1\<rparr>" "unat n"] by simp
  then show ?thesis using rd cases(1)
    by (auto simp: read_QByteArray_def status_setStatus split: prod.splits)
qed

lemma read_QByteArray_sticky:
  assumes "status s \<noteq> Ok"
  shows "status (snd (read_QByteArray s)) = status s"
proof -
  obtain n s1 where rd: "read_quint32 s = (n, s1)" by (cases "read_quint32 s")
  have s1: "status s1 = status s" using read_quint32_sticky [OF assms] rd by simp
  obtain got s2 where blk: "readBlock (unat n) s1 = (got, s2)"
    by (cases "readBlock (unat n) s1")
  have s2: "status s2 = status s"
    using readBlock_sticky [of s1 "unat n"] blk s1 assms by simp
  show ?thesis using rd s1 s2 blk assms
    by (simp add: read_QByteArray_def setStatus_def)
qed

lemma read_elements_parsed:
  "parse_uints n (device s) = Some (ts, r) \<Longrightarrow> status s = Ok \<Longrightarrow>
   read_elements n s l = (l @ ts, s\<lparr>device := r\<rparr>)"
proof (induction n arbitrary: s l ts)
  case 0
  then show ?case by simp
next
  case (Suc n)
  from Suc.prems(1) obtain t r1 ts' where t: "parse_quint32 (device s) = Some (t, r1)"
    and rest: "parse_uints n r1 = Some (ts', r)" and ts: "ts = t # ts'"
    by (auto split: option.splits)
  have rd: "read_quint32 s = (t, s\<lparr>device := r1\<rparr>)"
    using t by (rule read_quint32_parsed)
  have "read_elements n (s\<lparr>device := r1\<rparr>) (l @ [t]) =
      ((l @ [t]) @ ts', s\<lparr>device := r1\<rparr>\<lparr>device := r\<rparr>)"
    using rest Suc.prems(2) by (intro Suc.IH) simp_all
  then show ?case using rd ts Suc.prems(2) by simp
qed

lemma read_elements_failed:
  "parse_uints n (device s) = None \<Longrightarrow> status (snd (read_elements n s l)) \<noteq> Ok"
proof (induction n arbitrary: s l)
  case 0
  then show ?case by simp
next
  case (Suc n)
  obtain t s1 where rd: "read_quint32 s = (t, s1)" by (cases "read_quint32 s")
  show ?case
  proof (cases "status s1 = Ok")
    case False
    then show ?thesis using rd by simp
  next
    case True
    then obtain p where p: "parse_quint32 (device s) = Some p"
      using read_quint32_failed [of s] rd by (cases "parse_quint32 (device s)") auto
    obtain t' r1 where p': "p = (t', r1)" by (cases p)
    have "read_quint32 s = (t', s\<lparr>device := r1\<rparr>)"
      using p p' by (simp add: read_quint32_parsed)
    then have s1: "t = t'" "s1 = s\<lparr>device := r1\<rparr>" using rd by simp_all
    have "parse_uints n (device s1) = None"
      using Suc.prems p p' s1 by (auto split: option.splits)
    then have "status (snd (read_elements n s1 (l @ [t]))) \<noteq> Ok"
      by (rule Suc.IH)
    then show ?thesis using rd True by simp
  qed
qed

lemma read_elements_sticky:
  "status s \<noteq> Ok \<Longrightarrow> status (snd (read_elements n s l)) \<noteq> Ok"
proof (induction n arbitrary: s l)
  case 0
  then show ?case by simp
next
  case (Suc n)
  obtain t s1 where rd: "read_quint32 s = (t, s1)" by (cases "read_quint32 s")
  have "status s1 \<noteq> Ok" using read_quint32_sticky [OF Suc.prems] rd Suc.prems by simp
  then show ?case using rd by simp
qed

lemma read_QList_uint_parsed:
  assumes "parse_QList_uint (device s) = Some (v, r)" and "status s = Ok"
  shows "read_QList_uint s = (v, s\<lparr>device := r\<rparr>)"
proof -
  from assms(1) obtain n r1 where n: "parse_quint32 (device s) = Some (n, r1)"
    and ts: "parse_uints (unat n) r1 = Some (v, r)"
    by (auto simp: parse_QList_uint_def split: option.splits)
  have same: "s\<lparr>status := Ok\<rparr> = s" using assms(2) by simp
  have rd: "read_quint32 s = (n, s\<lparr>device := r1\<rparr>)"
    using n by (rule read_quint32_parsed)
  have rd0: "read_quint32 (s\<lparr>status := Ok\<rparr>) = (n, s\<lparr>device := r1\<rparr>)"
    unfolding same by (rule rd)
  have "read_elements (unat n) (s\<lparr>device := r1\<rparr>) [] =
      ([] @ v, s\<lparr>device := r1\<rparr>\<lparr>device := r\<rparr>)"
    using ts assms(2) by (intro read_elements_parsed) simp_all
  then show ?thesis using rd0 assms(2) by (simp add: read_QList_uint_def)
qed

lemma read_QList_uint_failed:
  assumes "parse_QList_uint (device s) = None"
  shows "status (snd (read_QList_uint s)) \<noteq> Ok"
proof -
  let ?s0 = "s\<lparr>status := Ok\<rparr>"
  obtain n s1 where rd: "read_quint32 ?s0 = (n, s1)" by (cases "read_quint32 ?s0")
  obtain l s2 where el: "read_elements (unat n) s1 [] = (l, s2)"
    by (cases "read_elements (unat n) s1 []")
  have "status s2 \<noteq> Ok"
  proof (cases "parse_quint32 (device s)")
    case None
    then have "status (snd (read_quint32 ?s0)) \<noteq> Ok"
      by (intro read_quint32_failed) simp
    then have "status s1 \<noteq> Ok" using rd by simp
    then show ?thesis using read_elements_sticky [of s1 "unat n" "[]"] el by simp
  next
    case (Some p)
    obtain n' r1 where p: "p = (n', r1)" by (cases p)
    have "read_quint32 ?s0 = (n', ?s0\<lparr>device := r1\<rparr>)"
      using Some p by (intro read_quint32_parsed) simp
    then have s1: "n = n'" "s1 = ?s0\<lparr>device := r1\<rparr>" using rd by simp_all
    have "parse_uints (unat n) (device s1) = None"
      using assms Some p s1 by (simp add: parse_QList_uint_def)
    then show ?thesis using read_elements_failed [of "unat n" s1 "[]"] el by simp
  qed
  then show ?thesis using rd el by (simp add: read_QList_uint_def Let_def)
qed

lemma read_QList_uint_sticky:
  "status s \<noteq> Ok \<Longrightarrow> status (snd (read_QList_uint s)) = status s"
  by (simp add: read_QList_uint_def split: prod.splits)

section \<open>One record\<close>

lemma read_qint32_eq: "read_qint32 s = read_quint32 s"
  by (simp add: read_qint32_def)

lemma validateDropImapPart_parsed:
  assumes "parse_ImapPart (device s) = Some (ImapPart mb uv uid path, r)" and "status s = Ok"
  shows "validateDropImapPart M s =
    (valid_record M (ImapPart mb uv uid path), s\<lparr>device := r\<rparr>, mb, uv, uid, path)"
proof -
  from assms(1) obtain r1 r2 r3 where
    p1: "parse_QString (device s) = Some (mb, r1)" and
    p2: "parse_quint32 r1 = Some (uv, r2)" and
    p3: "parse_quint32 r2 = Some (uid, r3)" and
    p4: "parse_QByteArray r3 = Some (path, r)"
    by (auto simp: parse_ImapPart_def split: option.splits)
  have r1: "read_QString s = (mb, s\<lparr>device := r1\<rparr>)"
    using p1 by (rule read_QString_parsed)
  have r2: "read_quint32 (s\<lparr>device := r1\<rparr>) = (uv, s\<lparr>device := r2\<rparr>)"
    using read_quint32_parsed [of "s\<lparr>device := r1\<rparr>" uv r2] p2 by simp
  have r3: "read_quint32 (s\<lparr>device := r2\<rparr>) = (uid, s\<lparr>device := r3\<rparr>)"
    using read_quint32_parsed [of "s\<lparr>device := r2\<rparr>" uid r3] p3 by simp
  have r4: "read_QByteArray (s\<lparr>device := r3\<rparr>) = (path, s\<lparr>device := r\<rparr>)"
    using read_QByteArray_parsed [of "s\<lparr>device := r3\<rparr>" path r] p4 by simp
  show ?thesis
    using r1 r2 r3 r4 assms(2) by (auto simp: validateDropImapPart_def)
qed

lemma validateDropImapPart_failed:
  assumes "parse_ImapPart (device s) = None"
  shows "\<not> fst (validateDropImapPart M s)"
proof -
  obtain mb s1 where r1: "read_QString s = (mb, s1)" by (cases "read_QString s")
  obtain uv s2 where r2: "read_quint32 s1 = (uv, s2)" by (cases "read_quint32 s1")
  obtain uid s3 where r3: "read_quint32 s2 = (uid, s3)" by (cases "read_quint32 s2")
  obtain path s4 where r4: "read_QByteArray s3 = (path, s4)" by (cases "read_QByteArray s3")
  have "status s4 \<noteq> Ok"
  proof (rule ccontr)
    assume "\<not> status s4 \<noteq> Ok"
    then have ok4: "status s4 = Ok" by simp
    have ok3: "status s3 = Ok"
      using read_QByteArray_sticky [of s3] r4 ok4 by (cases "status s3 = Ok") auto
    have ok2: "status s2 = Ok"
      using read_quint32_sticky [of s2] r3 ok3 by (cases "status s2 = Ok") auto
    have ok1: "status s1 = Ok"
      using read_quint32_sticky [of s1] r2 ok2 by (cases "status s1 = Ok") auto
    obtain mb' q1 where p1: "parse_QString (device s) = Some (mb', q1)"
      using read_QString_failed [of s] r1 ok1 by (cases "parse_QString (device s)") auto
    have s1: "s1 = s\<lparr>device := q1\<rparr>"
      using read_QString_parsed [OF p1] r1 by simp
    obtain uv' q2 where p2: "parse_quint32 q1 = Some (uv', q2)"
      using read_quint32_failed [of s1] r2 ok2 s1 by (cases "parse_quint32 q1") auto
    have s2: "s2 = s\<lparr>device := q2\<rparr>"
      using read_quint32_parsed [of s1 uv' q2] p2 s1 r2 by simp
    obtain uid' q3 where p3: "parse_quint32 q2 = Some (uid', q3)"
      using read_quint32_failed [of s2] r3 ok3 s2 by (cases "parse_quint32 q2") auto
    have s3: "s3 = s\<lparr>device := q3\<rparr>"
      using read_quint32_parsed [of s2 uid' q3] p3 s2 r3 by simp
    obtain path' q4 where p4: "parse_QByteArray q3 = Some (path', q4)"
      using read_QByteArray_failed [of s3] r4 ok4 s3 by (cases "parse_QByteArray q3") auto
    show False using assms p1 p2 p3 p4 by (simp add: parse_ImapPart_def)
  qed
  then show ?thesis using r1 r2 r3 r4 by (simp add: validateDropImapPart_def)
qed

lemma validateDropImapPart_sticky:
  assumes "status s \<noteq> Ok"
  shows "\<not> fst (validateDropImapPart M s)"
proof -
  obtain mb s1 where r1: "read_QString s = (mb, s1)" by (cases "read_QString s")
  obtain uv s2 where r2: "read_quint32 s1 = (uv, s2)" by (cases "read_quint32 s1")
  obtain uid s3 where r3: "read_quint32 s2 = (uid, s3)" by (cases "read_quint32 s2")
  obtain path s4 where r4: "read_QByteArray s3 = (path, s4)" by (cases "read_QByteArray s3")
  have b1: "status s1 \<noteq> Ok" using read_QString_sticky [OF assms] r1 assms by simp
  have b2: "status s2 \<noteq> Ok" using read_quint32_sticky [OF b1] r2 b1 by simp
  have b3: "status s3 \<noteq> Ok" using read_quint32_sticky [OF b2] r3 b2 by simp
  have b4: "status s4 \<noteq> Ok" using read_QByteArray_sticky [OF b3] r4 b3 by simp
  then show ?thesis using r1 r2 r3 r4 by (simp add: validateDropImapPart_def)
qed


lemma message_fields_parsed:
  assumes "parse_ImapMessage (device s) = Some (d, r)" and "status s = Ok"
  obtains mb uv uids q1 q2 where "d = ImapMessage mb uv uids"
    and "read_QString s = (mb, s\<lparr>device := q1\<rparr>)"
    and "read_quint32 (s\<lparr>device := q1\<rparr>) = (uv, s\<lparr>device := q2\<rparr>)"
    and "read_QList_uint (s\<lparr>device := q2\<rparr>) = (uids, s\<lparr>device := r\<rparr>)"
proof -
  from assms(1) obtain mb uv uids q1 q2 where d: "d = ImapMessage mb uv uids" and
    p1: "parse_QString (device s) = Some (mb, q1)" and
    p2: "parse_quint32 q1 = Some (uv, q2)" and
    p3: "parse_QList_uint q2 = Some (uids, r)"
    by (auto simp: parse_ImapMessage_def split: option.splits)
  have r1: "read_QString s = (mb, s\<lparr>device := q1\<rparr>)"
    using p1 by (rule read_QString_parsed)
  have r2: "read_quint32 (s\<lparr>device := q1\<rparr>) = (uv, s\<lparr>device := q2\<rparr>)"
    using read_quint32_parsed [of "s\<lparr>device := q1\<rparr>" uv q2] p2 by simp
  have r3: "read_QList_uint (s\<lparr>device := q2\<rparr>) = (uids, s\<lparr>device := r\<rparr>)"
    using read_QList_uint_parsed [of "s\<lparr>device := q2\<rparr>" uids r] p3 assms(2) by simp
  show ?thesis using that d r1 r2 r3 by blast
qed

lemma message_fields_failed:
  assumes "parse_ImapMessage (device s) = None \<or> status s \<noteq> Ok"
    and r1: "read_QString s = (mb, s1)"
    and r2: "read_quint32 s1 = (uv, s2)"
    and r3: "read_QList_uint s2 = (uids, s3)"
  shows "status s3 \<noteq> Ok"
proof (rule ccontr)
  assume "\<not> status s3 \<noteq> Ok"
  then have ok3: "status s3 = Ok" by simp
  have ok2: "status s2 = Ok"
    using read_QList_uint_sticky [of s2] r3 ok3 by (cases "status s2 = Ok") auto
  have ok1: "status s1 = Ok"
    using read_quint32_sticky [of s1] r2 ok2 by (cases "status s1 = Ok") auto
  have ok0: "status s = Ok"
    using read_QString_sticky [of s] r1 ok1 by (cases "status s = Ok") auto
  obtain mb' q1 where p1: "parse_QString (device s) = Some (mb', q1)"
    using read_QString_failed [of s] r1 ok1 by (cases "parse_QString (device s)") auto
  have s1: "s1 = s\<lparr>device := q1\<rparr>"
    using read_QString_parsed [OF p1] r1 by simp
  obtain uv' q2 where p2: "parse_quint32 q1 = Some (uv', q2)"
    using read_quint32_failed [of s1] r2 ok2 s1 by (cases "parse_quint32 q1") auto
  have s2: "s2 = s\<lparr>device := q2\<rparr>"
    using read_quint32_parsed [of s1 uv' q2] p2 s1 r2 by simp
  obtain uids' q3 where p3: "parse_QList_uint q2 = Some (uids', q3)"
    using read_QList_uint_failed [of s2] r3 ok3 s2 by (cases "parse_QList_uint q2") auto
  show False using assms(1) ok0 p1 p2 p3 by (simp add: parse_ImapMessage_def)
qed

lemma item_parsed:
  assumes "parse_record M (device s) = Some (d, r)" and "status s = Ok"
  shows "dropAttachmentList_item M s =
    (if valid_record M d then map_option (\<lambda>item. (item, s\<lparr>device := r\<rparr>)) (construct M d)
     else None)"
proof -
  from assms(1) obtain kind r0 where k: "parse_quint32 (device s) = Some (kind, r0)"
    by (auto simp: parse_record_def split: option.splits)
  have rk: "read_qint32 s = (kind, s\<lparr>device := r0\<rparr>)"
    using k by (simp add: read_qint32_eq read_quint32_parsed)
  let ?s1 = "s\<lparr>device := r0\<rparr>"
  have ok1: "status ?s1 = Ok" using assms(2) by simp
  consider (imap_message) "kind = ATTACHMENT_IMAP_MESSAGE M"
    | (imap_part) "kind \<noteq> ATTACHMENT_IMAP_MESSAGE M" "kind = ATTACHMENT_IMAP_PART M"
    | (local_file) "kind \<noteq> ATTACHMENT_IMAP_MESSAGE M" "kind \<noteq> ATTACHMENT_IMAP_PART M"
        "kind = ATTACHMENT_FILE M"
    | (unknown) "kind \<noteq> ATTACHMENT_IMAP_MESSAGE M" "kind \<noteq> ATTACHMENT_IMAP_PART M"
        "kind \<noteq> ATTACHMENT_FILE M"
    by blast
  then show ?thesis
  proof cases
    case imap_message
    then have p: "parse_ImapMessage (device ?s1) = Some (d, r)"
      using assms(1) k by (simp add: parse_record_def)
    from p ok1 obtain mb uv uids q1 q2 where d: "d = ImapMessage mb uv uids"
      and r1: "read_QString ?s1 = (mb, ?s1\<lparr>device := q1\<rparr>)"
      and r2: "read_quint32 (?s1\<lparr>device := q1\<rparr>) = (uv, ?s1\<lparr>device := q2\<rparr>)"
      and r3: "read_QList_uint (?s1\<lparr>device := q2\<rparr>) = (uids, ?s1\<lparr>device := r\<rparr>)"
      by (rule message_fields_parsed)
    show ?thesis
    proof (cases uids)
      case Nil
      then show ?thesis using imap_message rk r1 r2 r3 d assms(2)
        by (simp add: dropAttachmentList_item_def validateDropImapMessage_def)
    next
      case (Cons u us)
      then show ?thesis using imap_message rk r1 r2 r3 d assms(2)
        by (cases "newImapMessageAttachmentItem M mb uv u")
          (auto simp: dropAttachmentList_item_def validateDropImapMessage_def)
    qed
  next
    case imap_part
    then have p: "parse_ImapPart (device ?s1) = Some (d, r)"
      using assms(1) k by (simp add: parse_record_def)
    then obtain mb uv uid path where d: "d = ImapPart mb uv uid path"
      by (auto simp: parse_ImapPart_def split: option.splits)
    have v: "validateDropImapPart M ?s1 =
        (valid_record M d, ?s1\<lparr>device := r\<rparr>, mb, uv, uid, path)"
      using validateDropImapPart_parsed [of ?s1 mb uv uid path r M] p d ok1 by simp
    show ?thesis using imap_part rk v d
      by (cases "newImapPartAttachmentItem M mb uv uid path")
        (auto simp: dropAttachmentList_item_def)
  next
    case local_file
    then have p: "parse_File (device ?s1) = Some (d, r)"
      using assms(1) k by (simp add: parse_record_def)
    then obtain fileName where d: "d = File fileName"
      and pf: "parse_QString (device ?s1) = Some (fileName, r)"
      by (auto simp: parse_File_def split: option.splits)
    have "read_QString ?s1 = (fileName, ?s1\<lparr>device := r\<rparr>)"
      using pf by (rule read_QString_parsed)
    then show ?thesis using local_file rk d by (simp add: dropAttachmentList_item_def)
  next
    case unknown
    then show ?thesis using assms(1) k by (simp add: parse_record_def)
  qed
qed

lemma item_after_error:
  assumes "status s1 \<noteq> Ok \<or>
      (kind = ATTACHMENT_IMAP_MESSAGE M \<and> parse_ImapMessage (device s1) = None) \<or>
      (kind \<noteq> ATTACHMENT_IMAP_MESSAGE M \<and> kind = ATTACHMENT_IMAP_PART M \<and>
        parse_ImapPart (device s1) = None) \<or>
      (kind \<noteq> ATTACHMENT_IMAP_MESSAGE M \<and> kind \<noteq> ATTACHMENT_IMAP_PART M \<and>
        kind = ATTACHMENT_FILE M \<and> parse_File (device s1) = None) \<or>
      (kind \<noteq> ATTACHMENT_IMAP_MESSAGE M \<and> kind \<noteq> ATTACHMENT_IMAP_PART M \<and>
        kind \<noteq> ATTACHMENT_FILE M)"
    and rk: "read_qint32 s = (kind, s1)"
    and res: "dropAttachmentList_item M s = Some (item, s')"
  shows "status s' \<noteq> Ok"
proof -
  consider (imap_message) "kind = ATTACHMENT_IMAP_MESSAGE M"
    | (imap_part) "kind \<noteq> ATTACHMENT_IMAP_MESSAGE M" "kind = ATTACHMENT_IMAP_PART M"
    | (local_file) "kind \<noteq> ATTACHMENT_IMAP_MESSAGE M" "kind \<noteq> ATTACHMENT_IMAP_PART M"
        "kind = ATTACHMENT_FILE M"
    | (unknown) "kind \<noteq> ATTACHMENT_IMAP_MESSAGE M" "kind \<noteq> ATTACHMENT_IMAP_PART M"
        "kind \<noteq> ATTACHMENT_FILE M"
    by blast
  then show ?thesis
  proof cases
    case imap_message
    obtain mb s2 where r1: "read_QString s1 = (mb, s2)" by (cases "read_QString s1")
    obtain uv s3 where r2: "read_quint32 s2 = (uv, s3)" by (cases "read_quint32 s2")
    obtain uids s4 where r3: "read_QList_uint s3 = (uids, s4)" by (cases "read_QList_uint s3")
    have "parse_ImapMessage (device s1) = None \<or> status s1 \<noteq> Ok"
      using assms(1) imap_message by auto
    then have "status s4 \<noteq> Ok" using r1 r2 r3 by (rule message_fields_failed)
    then have "dropAttachmentList_item M s = None"
      using imap_message rk r1 r2 r3
      by (simp add: dropAttachmentList_item_def validateDropImapMessage_def)
    then show ?thesis using res by simp
  next
    case imap_part
    have "\<not> fst (validateDropImapPart M s1)"
    proof (cases "status s1 = Ok")
      case True
      then have "parse_ImapPart (device s1) = None" using assms(1) imap_part by auto
      then show ?thesis by (rule validateDropImapPart_failed)
    next
      case False
      then show ?thesis by (rule validateDropImapPart_sticky)
    qed
    then have "dropAttachmentList_item M s = None"
      using imap_part rk by (auto simp: dropAttachmentList_item_def split: prod.splits)
    then show ?thesis using res by simp
  next
    case local_file
    obtain fileName s2 where r1: "read_QString s1 = (fileName, s2)" by (cases "read_QString s1")
    have "status s2 \<noteq> Ok"
    proof (cases "status s1 = Ok")
      case True
      then have "parse_File (device s1) = None" using assms(1) local_file by auto
      then have "parse_QString (device s1) = None"
        by (auto simp: parse_File_def split: option.splits)
      then show ?thesis using read_QString_failed [of s1] r1 by simp
    next
      case False
      then show ?thesis using read_QString_sticky [of s1] r1 by simp
    qed
    moreover have "s' = s2"
      using res local_file rk r1 by (simp add: dropAttachmentList_item_def)
    ultimately show ?thesis by simp
  next
    case unknown
    then have "dropAttachmentList_item M s = None"
      using rk by (simp add: dropAttachmentList_item_def)
    then show ?thesis using res by simp
  qed
qed

lemma item_failed:
  assumes "parse_record M (device s) = None \<or> status s \<noteq> Ok"
    and res: "dropAttachmentList_item M s = Some (item, s')"
  shows "status s' \<noteq> Ok"
proof -
  obtain kind s1 where rk: "read_qint32 s = (kind, s1)" by (cases "read_qint32 s")
  show ?thesis
  proof (cases "status s1 = Ok")
    case False
    then show ?thesis using item_after_error [OF _ rk res] by blast
  next
    case True
    then have ok: "status s = Ok"
      using read_quint32_sticky [of s] rk by (cases "status s = Ok") (auto simp: read_qint32_eq)
    obtain kind' r0 where k: "parse_quint32 (device s) = Some (kind', r0)"
      using read_quint32_failed [of s] rk True
      by (cases "parse_quint32 (device s)") (auto simp: read_qint32_eq)
    have s1: "kind = kind'" "s1 = s\<lparr>device := r0\<rparr>"
      using read_quint32_parsed [OF k] rk by (simp_all add: read_qint32_eq)
    have none: "parse_record M (device s) = None" using assms(1) ok by simp
    have "(kind = ATTACHMENT_IMAP_MESSAGE M \<and> parse_ImapMessage (device s1) = None) \<or>
      (kind \<noteq> ATTACHMENT_IMAP_MESSAGE M \<and> kind = ATTACHMENT_IMAP_PART M \<and>
        parse_ImapPart (device s1) = None) \<or>
      (kind \<noteq> ATTACHMENT_IMAP_MESSAGE M \<and> kind \<noteq> ATTACHMENT_IMAP_PART M \<and>
        kind = ATTACHMENT_FILE M \<and> parse_File (device s1) = None) \<or>
      (kind \<noteq> ATTACHMENT_IMAP_MESSAGE M \<and> kind \<noteq> ATTACHMENT_IMAP_PART M \<and>
        kind \<noteq> ATTACHMENT_FILE M)"
      using none k s1 by (auto simp: parse_record_def split: if_splits)
    then show ?thesis using item_after_error [OF _ rk res] by blast
  qed
qed

section \<open>The whole list\<close>

lemma loop_parsed:
  "parse_records M n (device s) = Some (ds, r) \<Longrightarrow> status s = Ok \<Longrightarrow>
   dropAttachmentList_loop M n s items =
     map_option (\<lambda>new. (items @ new, s\<lparr>device := r\<rparr>)) (construct_all M ds)"
proof (induction n arbitrary: s items ds)
  case 0
  then show ?case by simp
next
  case (Suc n)
  from Suc.prems(1) obtain d r1 ds' where d: "parse_record M (device s) = Some (d, r1)"
    and rest: "parse_records M n r1 = Some (ds', r)" and ds: "ds = d # ds'"
    by (auto split: option.splits)
  have item: "dropAttachmentList_item M s =
      (if valid_record M d then map_option (\<lambda>item. (item, s\<lparr>device := r1\<rparr>)) (construct M d)
       else None)"
    using d Suc.prems(2) by (rule item_parsed)
  show ?case
  proof (cases "valid_record M d")
    case False
    then show ?thesis using item ds by simp
  next
    case True
    show ?thesis
    proof (cases "construct M d")
      case None
      then show ?thesis using item ds True by simp
    next
      case (Some it)
      have "dropAttachmentList_loop M n (s\<lparr>device := r1\<rparr>) (items @ [it]) =
          map_option (\<lambda>new. ((items @ [it]) @ new, s\<lparr>device := r1\<rparr>\<lparr>device := r\<rparr>))
            (construct_all M ds')"
        using rest Suc.prems(2) by (intro Suc.IH) simp_all
      then show ?thesis using item ds True Some
        by (cases "construct_all M ds'") simp_all
    qed
  qed
qed

lemma loop_failed:
  "parse_records M n (device s) = None \<or> status s \<noteq> Ok \<Longrightarrow>
   dropAttachmentList_loop M n s items = Some (items', s') \<Longrightarrow> status s' \<noteq> Ok"
proof (induction n arbitrary: s items)
  case 0
  then show ?case by simp
next
  case (Suc n)
  from Suc.prems(2) obtain it s1 where item: "dropAttachmentList_item M s = Some (it, s1)"
    and rest: "dropAttachmentList_loop M n s1 (items @ [it]) = Some (items', s')"
    by (auto split: option.splits)
  have "parse_records M n (device s1) = None \<or> status s1 \<noteq> Ok"
  proof (cases "parse_record M (device s) = None \<or> status s \<noteq> Ok")
    case True
    then have "status s1 \<noteq> Ok" using item by (rule item_failed)
    then show ?thesis by simp
  next
    case False
    then obtain d r1 where d: "parse_record M (device s) = Some (d, r1)" and ok: "status s = Ok"
      by auto
    have "s1 = s\<lparr>device := r1\<rparr>"
      using item_parsed [OF d ok] item
      by (cases "construct M d") (auto split: if_splits)
    moreover have "parse_records M n r1 = None"
      using Suc.prems(1) d ok by (auto split: option.splits)
    ultimately show ?thesis by simp
  qed
  then show ?case using rest by (rule Suc.IH)
qed

lemma dropAttachmentList_decodes:
  "dropAttachmentList M A (QDataStream_on payload) c =
     (case parse_attachment_list M payload of
        None \<Rightarrow> (False, c)
      | Some ds \<Rightarrow>
          (case construct_all M ds of
             None \<Rightarrow> (False, c)
           | Some items \<Rightarrow> (True, insertItems A (int (length items)) items c)))"
proof (cases "parse_quint32 payload")
  case None
  let ?s = "QDataStream_on payload"
  have "status (snd (read_quint32 ?s)) \<noteq> Ok"
    using None by (intro read_quint32_failed) (simp add: QDataStream_on_def)
  then show ?thesis using None
    by (auto simp: dropAttachmentList_def parse_attachment_list_def read_qint32_eq
        split: prod.splits)
next
  case (Some p)
  obtain num r where p: "p = (num, r)" by (cases p)
  let ?s = "QDataStream_on payload"
  let ?s1 = "?s\<lparr>device := r\<rparr>"
  have ne: "\<not> atEnd ?s"
    using Some p by (auto simp: atEnd_def QDataStream_on_def parse_quint32_def split: if_splits)
  have rd: "read_qint32 ?s = (num, ?s1)"
    using Some p read_quint32_parsed [of ?s num r]
    by (simp add: read_qint32_eq QDataStream_on_def)
  have ok1: "status ?s1 = Ok" by (simp add: QDataStream_on_def)
  show ?thesis
  proof (cases "sint num < 0")
    case True
    then show ?thesis using Some p ne rd ok1
      by (simp add: dropAttachmentList_def parse_attachment_list_def)
  next
    case False
    let ?n = "nat (sint num)"
    show ?thesis
    proof (cases "parse_records M ?n r")
      case None
      then have bad: "parse_records M ?n (device ?s1) = None \<or> status ?s1 \<noteq> Ok" by simp
      have "dropAttachmentList M A ?s c = (False, c)"
      proof (cases "dropAttachmentList_loop M ?n ?s1 []")
        case None
        then show ?thesis using ne rd ok1 False by (simp add: dropAttachmentList_def)
      next
        case (Some q)
        obtain items s2 where q: "q = (items, s2)" by (cases q)
        have "status s2 \<noteq> Ok" using loop_failed [OF bad] Some q by simp
        then show ?thesis using ne rd ok1 False Some q by (simp add: dropAttachmentList_def)
      qed
      then show ?thesis using \<open>parse_quint32 payload = Some p\<close> p False None
        by (simp add: parse_attachment_list_def)
    next
      case (Some q)
      obtain ds rest where q: "q = (ds, rest)" by (cases q)
      have loop: "dropAttachmentList_loop M ?n ?s1 [] =
          map_option (\<lambda>new. ([] @ new, ?s1\<lparr>device := rest\<rparr>)) (construct_all M ds)"
        using Some q ok1 by (intro loop_parsed) simp_all
      show ?thesis
      proof (cases "construct_all M ds")
        case None
        then show ?thesis using \<open>parse_quint32 payload = Some p\<close> p False Some q loop ne rd ok1
          by (simp add: dropAttachmentList_def parse_attachment_list_def)
      next
        case built: (Some items)
        then show ?thesis using \<open>parse_quint32 payload = Some p\<close> p False Some q loop ne rd ok1
          by (simp add: dropAttachmentList_def parse_attachment_list_def atEnd_def
              QDataStream_on_def)
      qed
    qed
  qed
qed

lemma dropAttachmentList_false:
  "fst (dropAttachmentList M A s c) = False \<Longrightarrow> snd (dropAttachmentList M A s c) = c"
  by (auto simp: dropAttachmentList_def Let_def split: prod.splits option.splits if_splits)

lemma construct_all_invalid: "\<not> list_all (valid_record M) ds \<Longrightarrow> construct_all M ds = None"
  by (induction ds) (auto split: option.splits)

lemma construct_all_throws:
  "d \<in> set ds \<Longrightarrow> construct M d = None \<Longrightarrow> construct_all M ds = None"
  by (induction ds) (auto split: option.splits)

text \<open>
  Claim C2. A payload that is not a well-formed attachment list of valid records (its
  count is negative, it ends before the declared records do, a record has an unknown
  kind, a field is cut short or corrupt, a record fails its validation, or bytes are
  left after the last record) makes \<open>dropAttachmentList\<close> return false with the composer
  as it was. Whenever \<open>dropAttachmentList\<close> returns false, on any stream, the composer is
  as it was. A well-formed list whose attachments can all be built is accepted, and all
  of its attachments are inserted in one step.
\<close>

theorem dropAttachmentList_malformed:
  "(\<not> well_formed_attachment_list M payload \<longrightarrow>
      dropAttachmentList M A (QDataStream_on payload) c = (False, c))
   \<and> (fst (dropAttachmentList M A s c) = False \<longrightarrow> snd (dropAttachmentList M A s c) = c)
   \<and> (\<forall>ds items. parse_attachment_list M payload = Some ds \<longrightarrow>
        construct_all M ds = Some items \<longrightarrow>
        dropAttachmentList M A (QDataStream_on payload) c =
          (True, insertItems A (int (length items)) items c))"
proof (intro conjI impI allI)
  assume "\<not> well_formed_attachment_list M payload"
  then show "dropAttachmentList M A (QDataStream_on payload) c = (False, c)"
    by (auto simp: dropAttachmentList_decodes well_formed_attachment_list_def
        construct_all_invalid split: option.splits)
next
  assume "fst (dropAttachmentList M A s c) = False"
  then show "snd (dropAttachmentList M A s c) = c"
    by (rule dropAttachmentList_false)
next
  fix ds items
  assume "parse_attachment_list M payload = Some ds" and "construct_all M ds = Some items"
  then show "dropAttachmentList M A (QDataStream_on payload) c =
      (True, insertItems A (int (length items)) items c)"
    by (simp add: dropAttachmentList_decodes)
qed

section \<open>Messages that are gone\<close>

lemma dropImapMessage_items_throws:
  "uid \<in> set uids \<Longrightarrow> newImapMessageAttachmentItem M mb uv uid = None \<Longrightarrow>
   dropImapMessage_items M A mb uv uids items = None"
  by (induction uids arbitrary: items) (auto split: option.splits)

lemma dropImapMessage_throws:
  assumes "parse_message_list payload = Some (ImapMessage mb uv uids)"
    and "uid \<in> set uids"
    and "newImapMessageAttachmentItem M mb uv uid = None"
  shows "dropImapMessage M A (QDataStream_on payload) c = (False, c)"
proof -
  let ?s = "QDataStream_on payload"
  have p: "parse_ImapMessage (device ?s) = Some (ImapMessage mb uv uids, [])"
    using assms(1)
    by (auto simp: parse_message_list_def QDataStream_on_def split: option.splits if_splits)
  have ok: "status ?s = Ok" by (simp add: QDataStream_on_def)
  from p ok obtain mb' uv' uids' q1 q2 where d: "ImapMessage mb uv uids = ImapMessage mb' uv' uids'"
    and r1: "read_QString ?s = (mb', ?s\<lparr>device := q1\<rparr>)"
    and r2: "read_quint32 (?s\<lparr>device := q1\<rparr>) = (uv', ?s\<lparr>device := q2\<rparr>)"
    and r3: "read_QList_uint (?s\<lparr>device := q2\<rparr>) = (uids', ?s\<lparr>device := []\<rparr>)"
    by (rule message_fields_parsed)
  have "dropImapMessage_items M A mb uv uids [] = None"
    using assms(2,3) by (rule dropImapMessage_items_throws)
  then show ?thesis using d r1 r2 r3
    by (simp add: dropImapMessage_def)
qed

lemma dropImapPart_throws:
  assumes "parse_part_reference payload = Some (ImapPart mb uv uid path)"
    and "newImapPartAttachmentItem M mb uv uid path = None"
  shows "dropImapPart M A (QDataStream_on payload) c = (False, c)"
proof -
  let ?s = "QDataStream_on payload"
  have p: "parse_ImapPart (device ?s) = Some (ImapPart mb uv uid path, [])"
    using assms(1)
    by (auto simp: parse_part_reference_def QDataStream_on_def split: option.splits if_splits)
  have ok: "status ?s = Ok" by (simp add: QDataStream_on_def)
  have "validateDropImapPart M ?s =
      (valid_record M (ImapPart mb uv uid path), ?s\<lparr>device := []\<rparr>, mb, uv, uid, path)"
    using p ok by (rule validateDropImapPart_parsed)
  then show ?thesis using assms(2)
    by (simp add: dropImapPart_def)
qed

text \<open>
  Claim C8. When a payload decodes and the constructor of an attachment for one of the
  remote messages or parts it names throws \<open>UnknownMessageIndex\<close>, the decoding function
  (for attachment lists, message lists and part references alike) returns false and
  the composer is as it was: nothing is inserted and no notification is sent.
\<close>

theorem unknown_message_is_decode_failure:
  "(\<forall>ds d. parse_attachment_list M payload = Some ds \<longrightarrow>
       d \<in> set ds \<longrightarrow> construct M d = None \<longrightarrow>
       dropAttachmentList M A (QDataStream_on payload) c = (False, c))
   \<and> (\<forall>mb uv uids uid. parse_message_list payload = Some (ImapMessage mb uv uids) \<longrightarrow>
       uid \<in> set uids \<longrightarrow>
       newImapMessageAttachmentItem M mb uv uid = None \<longrightarrow>
       dropImapMessage M A (QDataStream_on payload) c = (False, c))
   \<and> (\<forall>mb uv uid path. parse_part_reference payload = Some (ImapPart mb uv uid path) \<longrightarrow>
       newImapPartAttachmentItem M mb uv uid path = None \<longrightarrow>
       dropImapPart M A (QDataStream_on payload) c = (False, c))"
proof (intro conjI impI allI)
  fix ds d
  assume "parse_attachment_list M payload = Some ds" and "d \<in> set ds" and "construct M d = None"
  then show "dropAttachmentList M A (QDataStream_on payload) c = (False, c)"
    by (simp add: dropAttachmentList_decodes construct_all_throws)
next
  fix mb uv uids uid
  assume "parse_message_list payload = Some (ImapMessage mb uv uids)" and "uid \<in> set uids"
    and "newImapMessageAttachmentItem M mb uv uid = None"
  then show "dropImapMessage M A (QDataStream_on payload) c = (False, c)"
    by (rule dropImapMessage_throws)
next
  fix mb uv uid path
  assume "parse_part_reference payload = Some (ImapPart mb uv uid path)"
    and "newImapPartAttachmentItem M mb uv uid path = None"
  then show "dropImapPart M A (QDataStream_on payload) c = (False, c)"
    by (rule dropImapPart_throws)
qed

section \<open>Adding a file\<close>

text \<open>
  Claim C9. \<open>addFileAttachment\<close> returns false when the file attachment it builds is not
  available locally, and the attachment list is then what it was; otherwise it returns
  true and the list has the new attachment (preloaded when preloading is on) as one
  more item at its end.
\<close>

theorem addFileAttachment_result:
  "(\<not> isAvailableLocally A (newFileAttachmentItem M path) \<longrightarrow>
      fst (addFileAttachment M A path c) = False \<and>
      m_attachments (snd (addFileAttachment M A path c)) = m_attachments c)
   \<and> (isAvailableLocally A (newFileAttachmentItem M path) \<longrightarrow>
      fst (addFileAttachment M A path c) = True \<and>
      m_attachments (snd (addFileAttachment M A path c)) =
        m_attachments c @
          [if m_shouldPreload c then preload A (newFileAttachmentItem M path)
           else newFileAttachmentItem M path])"
  by (simp add: addFileAttachment_def Let_def beginInsertRows_def endInsertRows_def emit_def)

section \<open>Notifications\<close>

lemma bracketed_append: "bracketed xs \<Longrightarrow> bracketed ys \<Longrightarrow> bracketed (xs @ ys)"
  by (induction xs rule: bracketed.induct) simp_all

lemma bracketed_open_insert: "bracketed xs \<Longrightarrow> \<not> bracketed (xs @ [BeginInsertRows a b])"
  by (induction xs rule: bracketed.induct) simp_all

lemma bracketed_insertItems:
  "bracketed (signals c) \<Longrightarrow> bracketed (signals (insertItems A rows items c))"
  by (simp add: insertItems_def beginInsertRows_def endInsertRows_def emit_def Let_def
      bracketed_append)

lemma bracketed_dropAttachmentList:
  "bracketed (signals c) \<Longrightarrow> bracketed (signals (snd (dropAttachmentList M A s c)))"
  by (auto simp: dropAttachmentList_def Let_def bracketed_insertItems
      split: prod.splits option.splits)

lemma bracketed_dropImapMessage:
  "bracketed (signals c) \<Longrightarrow> bracketed (signals (snd (dropImapMessage M A s c)))"
  by (auto simp: dropImapMessage_def Let_def bracketed_insertItems
      split: prod.splits option.splits)

lemma bracketed_dropImapPart:
  "bracketed (signals c) \<Longrightarrow> bracketed (signals (snd (dropImapPart M A s c)))"
  by (auto simp: dropImapPart_def Let_def beginInsertRows_def endInsertRows_def emit_def
      bracketed_append split: prod.splits option.splits)

lemma bracketed_removeAttachment:
  "bracketed (signals c) \<Longrightarrow> bracketed (signals (removeAttachment index c))"
  by (simp add: removeAttachment_def Let_def beginRemoveRows_def endRemoveRows_def emit_def
      bracketed_append)

lemma bracketed_addFileAttachment_added:
  "bracketed (signals c) \<Longrightarrow> isAvailableLocally A (newFileAttachmentItem M path) \<Longrightarrow>
   bracketed (signals (snd (addFileAttachment M A path c)))"
  by (simp add: addFileAttachment_def Let_def beginInsertRows_def endInsertRows_def emit_def
      bracketed_append)

text \<open>
  Claim C3 asks that every \<open>begin\<close> notification is answered by its \<open>end\<close> on every path.
  The lemmas above show it for the drop functions, for \<open>removeAttachment\<close> and for a
  successful \<open>addFileAttachment\<close>. On the failure path of \<open>addFileAttachment\<close> it does not
  hold: the function has already called \<open>beginInsertRows\<close> when it finds the file
  unreadable and returns, so the trace ends in a \<open>begin\<close> that is never answered.
\<close>

theorem addFileAttachment_unanswered_begin:
  assumes "\<not> isAvailableLocally A (newFileAttachmentItem M path)"
    and "bracketed (signals c)"
  shows "addFileAttachment M A path c =
      (False, c\<lparr>signals := signals c @
         [BeginInsertRows (int (length (m_attachments c))) (int (length (m_attachments c)))]\<rparr>)
    \<and> \<not> bracketed (signals (snd (addFileAttachment M A path c)))"
  using assms
  by (simp add: addFileAttachment_def Let_def beginInsertRows_def emit_def size_attachments_def
      bracketed_open_insert)

section \<open>The examples\<close>

lemma latin1_QLatin1String: "latin1 (QLatin1String s) = s"
proof -
  have "char_of (unat (of_nat (of_char c) :: 16 word)) = c" for c
  proof -
    have "(of_char c :: nat) < 65536"
      by (rule less_trans [OF nat_of_char_less_256]) simp
    then have "unat (of_nat (of_char c) :: 16 word) = of_char c"
      by (simp add: unat_of_nat)
    then show ?thesis by simp
  qed
  then show ?thesis by (simp add: latin1_def QLatin1String_def map_idI)
qed

lemma QLatin1String_append: "QLatin1String (a @ b) = QLatin1String a @ QLatin1String b"
  by (simp add: QLatin1String_def)

lemma QLatin1String_empty: "(QLatin1String s = []) = (s = [])"
  by (simp add: QLatin1String_def)

lemma example_tokens:
  "ensureRandomStrings exampleLibrary exampleUuid 0 exampleComposer =
     (exampleRendered, 2)"
  by (simp add: ensureRandomStrings_def exampleLibrary_def exampleComposer_def exampleUuid_def
      exampleRendered_def exampleAddress_def latin1_QLatin1String withoutBraces_def numeral_2_eq_2 Let_def)

lemma example_beginning:
  "writeCommonMessageBeginning exampleLibrary exampleRendered = Inr exampleBeginning"
  by (simp add: writeCommonMessageBeginning_def exampleLibrary_def exampleRendered_def
      exampleComposer_def exampleAddress_def exampleBeginning_def latin1_QLatin1String
      processListOfRecipientsIntoHeader_def encodeHeaderField_def writeHeaderWithMsgIds_def
      bytes_def QLatin1String_append [symmetric])


lemma example_file_body:
  "writeAttachmentBody (quotedPrintableEncode exampleLibrary) exampleContract LocalFile =
     Inr (''YWFhYWFhYWFhYWFhYWFhYWFhYWFhYWFhYWFhYWFhYWFhYWFhYWFhYWFhYWFhYWFhYWFhYWFhYWFh'' @ CRLF @
          ''YWFh'' @ CRLF)"
  by (simp add: writeAttachmentBody_def exampleContract_def writeAttachmentBody_loop.simps
      exampleLibrary_def base64_char_def base64_alphabet_def)


lemma example_file_header:
  "writeAttachmentHeader exampleContract exampleRendered LocalFile =
     Inr (CRLF @ ''--trojita=_6fa459ea-ee8a-4ca4-894e-db77e160355e'' @ CRLF @
       ''Content-Type: application/octet-stream'' @ CRLF @
       ''Content-Disposition: attachment;'' @ CRLF @
       ''Content-Transfer-Encoding: base64'' @ CRLF @
       CRLF)"
  by (simp add: writeAttachmentHeader_def exampleContract_def exampleRendered_def bytes_def)

lemma example_remote_header:
  "writeAttachmentHeader exampleContract exampleRendered RemotePart = Inr exampleRemotePartHeader"
  by (simp add: writeAttachmentHeader_def exampleContract_def exampleRendered_def bytes_def
      exampleRemotePartHeader_def)

lemma example_remote_body:
  "writeAttachmentBody (quotedPrintableEncode exampleLibrary) exampleContract RemotePart = Inr ''part''"
  by (simp add: writeAttachmentBody_def exampleContract_def writeAttachmentBody_loop.simps)

lemma example_attachments: "m_attachments exampleRendered = [LocalFile, RemotePart]"
  by (simp add: exampleRendered_def exampleComposer_def)

lemma example_boundary:
  "bytes (m_mimeBoundary exampleRendered) = ''trojita=_6fa459ea-ee8a-4ca4-894e-db77e160355e''"
  by (simp add: exampleRendered_def bytes_def)

lemma example_raw:
  "asRawMessage exampleLibrary exampleContract exampleUuid 0 exampleComposer =
     (Inr exampleRaw, exampleRendered, 2)"
  by (simp add: asRawMessage_def example_tokens example_beginning example_attachments
      example_file_header example_file_body example_remote_header example_remote_body
      example_boundary exampleRaw_def exampleFilePart_def exampleClosing_def)

lemma example_urls:
  "imapUrl exampleContract LocalFile = []"
  "imapUrl exampleContract RemotePart = ''/INBOX;UIDVALIDITY=1/;UID=7/;SECTION=2''"
  by (simp_all add: exampleContract_def)

lemma example_fragments:
  "asCatenateData exampleLibrary exampleContract exampleUuid 0 exampleComposer =
     (Inr exampleFragments, exampleRendered, 2)"
  by (simp add: asCatenateData_def example_tokens example_beginning example_attachments
      example_file_header example_file_body example_remote_header example_remote_body
      example_boundary exampleFragments_def exampleFilePart_def exampleClosing_def
      write_back_def ensure_text_back_def example_urls Let_def)


lemma example_remote_bodies:
  "remoteBodies exampleLibrary exampleContract [LocalFile, RemotePart] = [''part'']"
  by (simp add: remoteBodies_def inlinedBody_def example_urls example_remote_body)

theorem catenate_reproduces_raw_witness:
  "asRawMessage exampleLibrary exampleContract exampleUuid 0 exampleComposer =
     (Inr exampleRaw, exampleRendered, 2)
   \<and> asCatenateData exampleLibrary exampleContract exampleUuid 0 exampleComposer =
     (Inr exampleFragments, exampleRendered, 2)
   \<and> catenate exampleFragments [''part''] = exampleRaw"
proof -
  have raw: "asRawMessage exampleLibrary exampleContract exampleUuid 0 exampleComposer =
      (Inr exampleRaw, exampleRendered, 2)"
    by (rule example_raw)
  have cat: "asCatenateData exampleLibrary exampleContract exampleUuid 0 exampleComposer =
      (Inr exampleFragments, exampleRendered, 2) \<or>
    asCatenateData exampleLibrary exampleContract exampleUuid 0 exampleRendered =
      (Inr exampleFragments, exampleRendered, 2)"
    using example_fragments by simp
  have "m_attachments exampleComposer = [LocalFile, RemotePart]"
    by (simp add: exampleComposer_def)
  then show ?thesis
    using catenate_reproduces_raw [OF raw cat] example_raw example_fragments
      example_remote_bodies
    by simp
qed

theorem asCatenateData_fragments_witness:
  "asCatenateData exampleLibrary exampleContract exampleUuid 0 exampleComposer =
     (Inr exampleFragments, exampleRendered, 2)
   \<and> exampleFragments \<noteq> []
   \<and> (\<exists>rest. hd exampleFragments = (CATENATE_TEXT, exampleBeginning @ rest))
   \<and> distinct_adj (map fst exampleFragments)
   \<and> map fst exampleFragments = [CATENATE_TEXT, CATENATE_URL, CATENATE_TEXT]"
proof -
  have "map fst exampleFragments = [CATENATE_TEXT, CATENATE_URL, CATENATE_TEXT]"
    by (simp add: exampleFragments_def)
  then show ?thesis
    using asCatenateData_fragments [OF example_fragments] example_fragments example_beginning
    by simp
qed

theorem serialisation_tokens_cached_witness:
  "m_messageId exampleRendered = Some ''1b4e28ba-2fa1-41d2-883f-0016d3cca427@x.com''
   \<and> m_mimeBoundary exampleRendered = Some ''trojita=_6fa459ea-ee8a-4ca4-894e-db77e160355e''
   \<and> asRawMessage exampleLibrary exampleContract (\<lambda>k. ''{another}'') 7 exampleRendered =
       (Inr exampleRaw, exampleRendered, 7)
   \<and> asCatenateData exampleLibrary exampleContract (\<lambda>k. ''{another}'') 7 exampleRendered =
       (Inr exampleFragments, exampleRendered, 7)"
proof -
  have first: "asRawMessage exampleLibrary exampleContract exampleUuid 0 exampleComposer =
      (Inr exampleRaw, exampleRendered, 2) \<or>
    asCatenateData exampleLibrary exampleContract exampleUuid 0 exampleComposer =
      (Inr exampleFragments, exampleRendered, 2)"
    using example_raw by simp
  have "m_messageId exampleRendered = Some ''1b4e28ba-2fa1-41d2-883f-0016d3cca427@x.com''"
    and "m_mimeBoundary exampleRendered = Some ''trojita=_6fa459ea-ee8a-4ca4-894e-db77e160355e''"
    by (simp_all add: exampleRendered_def)
  then show ?thesis
    using serialisation_tokens_cached [OF first, of "\<lambda>k. ''{another}''" 7]
      example_raw example_fragments
    by simp
qed

theorem Bcc_not_in_headers_witness:
  "writeCommonMessageBeginning exampleLibrary
     (exampleComposer\<lparr>m_recipients :=
        [(ADDRESS_BCC, exampleAddress ''c'' ''z.org''), (ADDRESS_TO, exampleAddress ''b'' ''y.com''),
         (ADDRESS_BCC, exampleAddress ''d'' ''z.org'')]\<rparr>) =
   writeCommonMessageBeginning exampleLibrary exampleComposer
   \<and> rawRecipientAddresses exampleLibrary
     (exampleComposer\<lparr>m_recipients :=
        [(ADDRESS_BCC, exampleAddress ''c'' ''z.org''), (ADDRESS_TO, exampleAddress ''b'' ''y.com''),
         (ADDRESS_BCC, exampleAddress ''d'' ''z.org'')]\<rparr>) =
     [''c@z.org'', ''b@y.com'', ''d@z.org'']"
proof -
  let ?rs = "[(ADDRESS_BCC, exampleAddress ''c'' ''z.org''),
      (ADDRESS_TO, exampleAddress ''b'' ''y.com''), (ADDRESS_BCC, exampleAddress ''d'' ''z.org'')]"
  have visible: "filter (\<lambda>r. fst r \<noteq> ADDRESS_BCC) ?rs =
      filter (\<lambda>r. fst r \<noteq> ADDRESS_BCC) (m_recipients exampleComposer)"
    by (simp add: exampleComposer_def)
  have "map (\<lambda>r. asSMTPMailbox exampleLibrary (snd r)) ?rs = [''c@z.org'', ''b@y.com'', ''d@z.org'']"
    by (simp add: exampleLibrary_def exampleAddress_def latin1_QLatin1String)
  then show ?thesis
    using Bcc_not_in_headers [OF visible, of exampleLibrary] by simp
qed

section \<open>Example payloads\<close>

lemma example_parse_INBOX: "parse_QString (bytes_INBOX @ r) = Some (QLatin1String ''INBOX'', r)"
  by (simp add: parse_QString_def parse_quint32_def be32_def bytes_INBOX_def QLatin1String_def)

lemma example_parse_tmp_a: "parse_QString (bytes_tmp_a @ r) = Some (QLatin1String ''/tmp/a'', r)"
  by (simp add: parse_QString_def parse_quint32_def be32_def bytes_tmp_a_def QLatin1String_def)

lemma example_parse_number:
  "parse_quint32 (bytes_of_number low @ r) = Some (of_nat (of_char low), r)"
  by (simp add: parse_quint32_def be32_def bytes_of_number_def)

lemma example_parse_file:
  "parse_record exampleModel (record_file @ r) = Some (File (QLatin1String ''/tmp/a''), r)"
  by (simp add: parse_record_def record_file_def example_parse_number example_parse_tmp_a
      parse_File_def exampleModel_def)

lemma example_parse_message:
  "parse_record exampleModel (record_message uid @ r) =
     Some (ImapMessage (QLatin1String ''INBOX'') 1 [of_nat (of_char uid)], r)"
  by (simp add: parse_record_def record_message_def example_parse_number example_parse_INBOX
      parse_ImapMessage_def parse_QList_uint_def exampleModel_def)


lemma example_parse_nothing: "parse_record exampleModel [] = None"
  by (simp add: parse_record_def parse_quint32_def)

lemma example_two_of_three: "parse_attachment_list exampleModel payload_two_of_three = None"
  by (simp add: parse_attachment_list_def payload_two_of_three_def example_parse_number
      example_parse_file example_parse_message [of _ "[]", simplified] example_parse_nothing
      eval_nat_numeral)

lemma example_negative_count: "parse_attachment_list exampleModel payload_negative_count = None"
  by (simp add: parse_attachment_list_def payload_negative_count_def parse_quint32_def be32_def)

lemma example_unknown_kind: "parse_attachment_list exampleModel payload_unknown_kind = None"
  by (simp add: parse_attachment_list_def payload_unknown_kind_def example_parse_number
      parse_record_def exampleModel_def)

lemma example_no_mailbox:
  "parse_attachment_list exampleModel payload_no_mailbox =
     Some [ImapMessage (QLatin1String ''/tmp/a'') 1 [7]]"
  by (simp add: parse_attachment_list_def payload_no_mailbox_def example_parse_number
      parse_record_def exampleModel_def parse_ImapMessage_def example_parse_tmp_a
      parse_QList_uint_def example_parse_number [of _ "[]", simplified])

lemma example_leftover: "parse_attachment_list exampleModel payload_leftover = None"
  by (simp add: parse_attachment_list_def payload_leftover_def example_parse_number
      example_parse_file)

lemma example_cut_string:
  "parse_QString [CHR 0x00, CHR 0x00, CHR 0x00, CHR 0x0C, CHR 0x00, CHR ''/''] = None"
  by (simp add: parse_QString_def parse_quint32_def be32_def)

lemma example_cut_short: "parse_attachment_list exampleModel payload_cut_short = None"
  by (simp add: parse_attachment_list_def payload_cut_short_def example_parse_number
      parse_record_def exampleModel_def parse_File_def example_cut_string)

lemma example_message_gone:
  "parse_attachment_list exampleModel payload_message_gone =
     Some [File (QLatin1String ''/tmp/a''), ImapMessage (QLatin1String ''INBOX'') 1 [9]]"
  by (simp add: parse_attachment_list_def payload_message_gone_def example_parse_number
      example_parse_file example_parse_message [of _ "[]", simplified] eval_nat_numeral)

lemma example_good:
  "parse_attachment_list exampleModel payload_good =
     Some [File (QLatin1String ''/tmp/a''), ImapMessage (QLatin1String ''INBOX'') 1 [7]]"
  by (simp add: parse_attachment_list_def payload_good_def example_parse_number
      example_parse_file example_parse_message [of _ "[]", simplified] eval_nat_numeral)

lemma example_good_items:
  "construct_all exampleModel
     [File (QLatin1String ''/tmp/a''), ImapMessage (QLatin1String ''INBOX'') 1 [7]] =
   Some [LocalFile, RemotePart]"
  by (simp add: exampleModel_def)

lemma example_inserted:
  "insertItems exampleContract 2 [LocalFile, RemotePart] exampleComposer =
     exampleComposer\<lparr>m_attachments := [LocalFile, RemotePart, LocalFile, RemotePart],
       signals := [BeginInsertRows 2 3, EndInsertRows]\<rparr>"
  by (simp add: insertItems_def beginInsertRows_def endInsertRows_def emit_def Let_def
      size_attachments_def exampleComposer_def)

theorem dropAttachmentList_malformed_witness:
  "dropAttachmentList exampleModel exampleContract (QDataStream_on payload_two_of_three)
     exampleComposer = (False, exampleComposer)
   \<and> dropAttachmentList exampleModel exampleContract (QDataStream_on payload_negative_count)
     exampleComposer = (False, exampleComposer)
   \<and> dropAttachmentList exampleModel exampleContract (QDataStream_on payload_unknown_kind)
     exampleComposer = (False, exampleComposer)
   \<and> dropAttachmentList exampleModel exampleContract (QDataStream_on payload_no_mailbox)
     exampleComposer = (False, exampleComposer)
   \<and> dropAttachmentList exampleModel exampleContract (QDataStream_on payload_leftover)
     exampleComposer = (False, exampleComposer)
   \<and> dropAttachmentList exampleModel exampleContract (QDataStream_on payload_cut_short)
     exampleComposer = (False, exampleComposer)
   \<and> dropAttachmentList exampleModel exampleContract (QDataStream_on payload_good)
     exampleComposer =
       (True, exampleComposer\<lparr>m_attachments := [LocalFile, RemotePart, LocalFile, RemotePart],
          signals := [BeginInsertRows 2 3, EndInsertRows]\<rparr>)"
proof -
  have invalid: "\<not> findMailboxByName exampleModel (QLatin1String ''/tmp/a'')"
    by (simp add: exampleModel_def QLatin1String_def)
  note malformed = dropAttachmentList_malformed
    [of exampleModel _ exampleContract exampleComposer "QDataStream_on []"]
  have "dropAttachmentList exampleModel exampleContract (QDataStream_on payload_two_of_three)
      exampleComposer = (False, exampleComposer)"
    using malformed [of payload_two_of_three]
    by (simp add: well_formed_attachment_list_def example_two_of_three)
  moreover have "dropAttachmentList exampleModel exampleContract
      (QDataStream_on payload_negative_count) exampleComposer = (False, exampleComposer)"
    using malformed [of payload_negative_count]
    by (simp add: well_formed_attachment_list_def example_negative_count)
  moreover have "dropAttachmentList exampleModel exampleContract
      (QDataStream_on payload_unknown_kind) exampleComposer = (False, exampleComposer)"
    using malformed [of payload_unknown_kind]
    by (simp add: well_formed_attachment_list_def example_unknown_kind)
  moreover have "dropAttachmentList exampleModel exampleContract
      (QDataStream_on payload_no_mailbox) exampleComposer = (False, exampleComposer)"
    using malformed [of payload_no_mailbox]
    by (simp add: well_formed_attachment_list_def example_no_mailbox invalid)
  moreover have "dropAttachmentList exampleModel exampleContract
      (QDataStream_on payload_leftover) exampleComposer = (False, exampleComposer)"
    using malformed [of payload_leftover]
    by (simp add: well_formed_attachment_list_def example_leftover)
  moreover have "dropAttachmentList exampleModel exampleContract
      (QDataStream_on payload_cut_short) exampleComposer = (False, exampleComposer)"
    using malformed [of payload_cut_short]
    by (simp add: well_formed_attachment_list_def example_cut_short)
  moreover have "dropAttachmentList exampleModel exampleContract
      (QDataStream_on payload_good) exampleComposer =
       (True, exampleComposer\<lparr>m_attachments := [LocalFile, RemotePart, LocalFile, RemotePart],
          signals := [BeginInsertRows 2 3, EndInsertRows]\<rparr>)"
    using malformed [of payload_good, THEN conjunct2, THEN conjunct2, rule_format,
        OF example_good example_good_items]
    by (simp add: example_inserted)
  ultimately show ?thesis by simp
qed

lemma example_parse_path:
  "parse_QByteArray [CHR 0x00, CHR 0x00, CHR 0x00, CHR 0x02, CHR ''/'', CHR ''1''] = Some (''/1'', [])"
  by (simp add: parse_QByteArray_def parse_quint32_def be32_def)

lemma example_parse_part_of_9:
  "parse_part_reference payload_part_of_9 = Some (ImapPart (QLatin1String ''INBOX'') 1 9 ''/1'')"
  by (simp add: parse_part_reference_def parse_ImapPart_def payload_part_of_9_def
      example_parse_INBOX example_parse_number example_parse_path)

lemma example_parse_two_numbers:
  "parse_uints 2 (bytes_of_number a @ bytes_of_number b) =
     Some ([of_nat (of_char a), of_nat (of_char b)], [])"
  by (simp add: numeral_2_eq_2 example_parse_number example_parse_number [of _ "[]", simplified])

lemma example_parse_messages_7_9:
  "parse_message_list payload_messages_7_9 = Some (ImapMessage (QLatin1String ''INBOX'') 1 [7, 9])"
  by (simp add: parse_message_list_def parse_ImapMessage_def payload_messages_7_9_def
      example_parse_INBOX example_parse_number parse_QList_uint_def example_parse_two_numbers)

theorem unknown_message_is_decode_failure_witness:
  "well_formed_attachment_list exampleModel payload_message_gone
   \<and> dropAttachmentList exampleModel exampleContract (QDataStream_on payload_message_gone)
       exampleComposer = (False, exampleComposer)
   \<and> dropImapMessage exampleModel exampleContract (QDataStream_on payload_messages_7_9)
       exampleComposer = (False, exampleComposer)
   \<and> dropImapPart exampleModel exampleContract (QDataStream_on payload_part_of_9)
       exampleComposer = (False, exampleComposer)"
proof -
  have inbox: "findMailboxByName exampleModel (QLatin1String ''INBOX'')"
    by (simp add: exampleModel_def)
  have gone: "newImapMessageAttachmentItem exampleModel (QLatin1String ''INBOX'') 1 9 = None"
    "newImapPartAttachmentItem exampleModel (QLatin1String ''INBOX'') 1 9 ''/1'' = None"
    by (simp_all add: exampleModel_def)
  note failure = unknown_message_is_decode_failure [of exampleModel _ exampleContract exampleComposer]
  have "well_formed_attachment_list exampleModel payload_message_gone"
    by (simp add: well_formed_attachment_list_def example_message_gone inbox)
  moreover have "dropAttachmentList exampleModel exampleContract
      (QDataStream_on payload_message_gone) exampleComposer = (False, exampleComposer)"
    using failure [of payload_message_gone, THEN conjunct1, rule_format, OF example_message_gone,
        of "ImapMessage (QLatin1String ''INBOX'') 1 [9]"] gone
    by simp
  moreover have "dropImapMessage exampleModel exampleContract
      (QDataStream_on payload_messages_7_9) exampleComposer = (False, exampleComposer)"
    using failure [of payload_messages_7_9, THEN conjunct2, THEN conjunct1, rule_format,
        OF example_parse_messages_7_9, of 9] gone
    by simp
  moreover have "dropImapPart exampleModel exampleContract
      (QDataStream_on payload_part_of_9) exampleComposer = (False, exampleComposer)"
    using failure [of payload_part_of_9, THEN conjunct2, THEN conjunct2, rule_format,
        OF example_parse_part_of_9] gone
    by simp
  ultimately show ?thesis by simp
qed

theorem addFileAttachment_result_witness:
  "fst (addFileAttachment exampleModel exampleContract (QLatin1String ''/tmp/missing'')
     exampleComposer) = False
   \<and> m_attachments (snd (addFileAttachment exampleModel exampleContract
       (QLatin1String ''/tmp/missing'') exampleComposer)) = [LocalFile, RemotePart]
   \<and> fst (addFileAttachment exampleModel exampleContract (QLatin1String ''/tmp/a'')
     exampleComposer) = True
   \<and> m_attachments (snd (addFileAttachment exampleModel exampleContract
       (QLatin1String ''/tmp/a'') exampleComposer)) = [LocalFile, RemotePart, LocalFile]"
proof -
  have missing: "newFileAttachmentItem exampleModel (QLatin1String ''/tmp/missing'') = Unavailable"
    by (simp add: exampleModel_def QLatin1String_def)
  have present: "newFileAttachmentItem exampleModel (QLatin1String ''/tmp/a'') = LocalFile"
    by (simp add: exampleModel_def)
  have avail: "\<not> isAvailableLocally exampleContract Unavailable"
    "isAvailableLocally exampleContract LocalFile"
    by (simp_all add: exampleContract_def)
  have c: "m_attachments exampleComposer = [LocalFile, RemotePart]"
    "\<not> m_shouldPreload exampleComposer"
    by (simp_all add: exampleComposer_def)
  show ?thesis
    using addFileAttachment_result [of exampleContract exampleModel
        "QLatin1String ''/tmp/missing''" exampleComposer]
      addFileAttachment_result [of exampleContract exampleModel
        "QLatin1String ''/tmp/a''" exampleComposer]
    by (simp add: missing present avail c)
qed

theorem addFileAttachment_unanswered_begin_witness:
  "addFileAttachment exampleModel exampleContract (QLatin1String ''/tmp/missing'') exampleComposer =
     (False, exampleComposer\<lparr>signals := [BeginInsertRows 2 2]\<rparr>)
   \<and> \<not> bracketed [BeginInsertRows 2 2]"
proof -
  have missing: "\<not> isAvailableLocally exampleContract
      (newFileAttachmentItem exampleModel (QLatin1String ''/tmp/missing''))"
    by (simp add: exampleModel_def exampleContract_def QLatin1String_def)
  have quiet: "bracketed (signals exampleComposer)"
    by (simp add: exampleComposer_def)
  have c: "signals exampleComposer = []" "m_attachments exampleComposer = [LocalFile, RemotePart]"
    by (simp_all add: exampleComposer_def)
  show ?thesis
    using addFileAttachment_unanswered_begin [OF missing quiet] by (simp add: c)
qed

end
